theory Spec2Isabelle
  imports Complex_Main "HOL-Library.Word" "HOL-Library.Log_Nat"
begin

unbundle bit_operations_syntax

section \<open>IEEE 754 binary arithmetic, as the C types of ZmodADC.c use it\<close>

text \<open>
  ZmodADC.c computes with \<^verbatim>\<open>float\<close> (binary32) and \<^verbatim>\<open>double\<close> (binary64) operands.
  A floating-point datum is modelled by its value: a sign and a non-negative rational
  magnitude, a signed infinity, or a NaN (payloads play no role in any operation of the
  file). Every operation computes the exact rational result and rounds it to the format
  of the operation, to nearest with ties to even, which is the default rounding mode of
  a C program that never changes it. Each operation is evaluated in the format of its C
  type (\<^verbatim>\<open>FLT_EVAL_METHOD\<close> 0).
\<close>

datatype fp = Finite bool rat | Infinity bool | NaN

record fp_format =
  prec :: nat
  emin :: int
  emax :: int

definition binary32 :: fp_format where
  "binary32 = \<lparr>prec = 24, emin = - 126, emax = 127\<rparr>"

definition binary64 :: fp_format where
  "binary64 = \<lparr>prec = 53, emin = - 1022, emax = 1023\<rparr>"

text \<open>\<open>pow2 k\<close> is \<open>2\<close> to the integer power \<open>k\<close>.\<close>

definition pow2 :: "int \<Rightarrow> rat" where
  "pow2 k = (if 0 \<le> k then 2 ^ nat k else 1 / 2 ^ nat (- k))"

text \<open>
  \<open>ilog2 r\<close> is the binary exponent of a positive rational: the integer \<open>e\<close> with
  \<open>2\<^sup>e \<le> r < 2\<^sup>e\<^sup>+\<^sup>1\<close>, computed from bit lengths.
\<close>

definition ilog2 :: "rat \<Rightarrow> int" where
  "ilog2 r = (if 1 \<le> r then bitlen \<lfloor>r\<rfloor> - 1 else - bitlen (\<lceil>1 / r\<rceil> - 1))"

text \<open>\<open>rne t\<close> rounds a rational to the nearest integer, a tie to the even neighbour.\<close>

definition rne :: "rat \<Rightarrow> int" where
  "rne t = (let f = \<lfloor>t\<rfloor>; d = t - of_int f in
     if d < 1 / 2 then f else if 1 / 2 < d then f + 1 else if even f then f else f + 1)"

text \<open>
  \<open>rnd p em r\<close> rounds a non-negative magnitude to precision \<open>p\<close> with smallest
  exponent \<open>em\<close> (below \<open>2\<^sup>e\<^sup>m\<close> the quantum stays that of the subnormals), the
  exponent unbounded above.
\<close>

definition rnd :: "nat \<Rightarrow> int \<Rightarrow> rat \<Rightarrow> rat" where
  "rnd p em r = (if r = 0 then 0 else
     let e = max (ilog2 r) em; q = pow2 (e - int p + 1) in of_int (rne (r / q)) * q)"

text \<open>Rounding into a format: a result of \<open>2\<^sup>e\<^sup>m\<^sup>a\<^sup>x\<^sup>+\<^sup>1\<close> or more overflows to infinity.\<close>

definition fp_round :: "fp_format \<Rightarrow> bool \<Rightarrow> rat \<Rightarrow> fp" where
  "fp_round fmt s m = (let r = rnd (prec fmt) (emin fmt) m in
     if pow2 (emax fmt + 1) \<le> r then Infinity s else Finite s r)"

definition fp_val :: "bool \<Rightarrow> rat \<Rightarrow> rat" where
  "fp_val s m = (if s then - m else m)"

fun fp_add :: "fp_format \<Rightarrow> fp \<Rightarrow> fp \<Rightarrow> fp" where
  "fp_add fmt NaN y = NaN"
| "fp_add fmt (Infinity s) NaN = NaN"
| "fp_add fmt (Infinity s) (Infinity t) = (if s = t then Infinity s else NaN)"
| "fp_add fmt (Infinity s) (Finite t n) = Infinity s"
| "fp_add fmt (Finite s m) NaN = NaN"
| "fp_add fmt (Finite s m) (Infinity t) = Infinity t"
| "fp_add fmt (Finite s m) (Finite t n) =
     (let v = fp_val s m + fp_val t n in
      if v = 0 then Finite (s \<and> t) 0 else fp_round fmt (v < 0) \<bar>v\<bar>)"

fun fp_mul :: "fp_format \<Rightarrow> fp \<Rightarrow> fp \<Rightarrow> fp" where
  "fp_mul fmt NaN y = NaN"
| "fp_mul fmt (Infinity s) NaN = NaN"
| "fp_mul fmt (Infinity s) (Infinity t) = Infinity (s \<noteq> t)"
| "fp_mul fmt (Infinity s) (Finite t n) = (if n = 0 then NaN else Infinity (s \<noteq> t))"
| "fp_mul fmt (Finite s m) NaN = NaN"
| "fp_mul fmt (Finite s m) (Infinity t) = (if m = 0 then NaN else Infinity (s \<noteq> t))"
| "fp_mul fmt (Finite s m) (Finite t n) = fp_round fmt (s \<noteq> t) (m * n)"

fun fp_div :: "fp_format \<Rightarrow> fp \<Rightarrow> fp \<Rightarrow> fp" where
  "fp_div fmt NaN y = NaN"
| "fp_div fmt (Infinity s) NaN = NaN"
| "fp_div fmt (Infinity s) (Infinity t) = NaN"
| "fp_div fmt (Infinity s) (Finite t n) = Infinity (s \<noteq> t)"
| "fp_div fmt (Finite s m) NaN = NaN"
| "fp_div fmt (Finite s m) (Infinity t) = Finite (s \<noteq> t) 0"
| "fp_div fmt (Finite s m) (Finite t n) =
     (if n = 0 then (if m = 0 then NaN else Infinity (s \<noteq> t))
      else fp_round fmt (s \<noteq> t) (m / n))"

text \<open>
  Conversion between formats (\<^verbatim>\<open>float\<close> to \<^verbatim>\<open>double\<close> is exact, \<^verbatim>\<open>double\<close> to
  \<^verbatim>\<open>float\<close> rounds), conversion of an integer, and a decimal literal.
\<close>

fun fp_cvt :: "fp_format \<Rightarrow> fp \<Rightarrow> fp" where
  "fp_cvt fmt NaN = NaN"
| "fp_cvt fmt (Infinity s) = Infinity s"
| "fp_cvt fmt (Finite s m) = fp_round fmt s m"

definition fp_of_int :: "fp_format \<Rightarrow> int \<Rightarrow> fp" where
  "fp_of_int fmt i = fp_round fmt (i < 0) (of_int \<bar>i\<bar>)"

definition fp_lit :: "fp_format \<Rightarrow> rat \<Rightarrow> fp" where
  "fp_lit fmt r = fp_round fmt (r < 0) \<bar>r\<bar>"

text \<open>
  A \<^verbatim>\<open>float\<close> object is its 32-bit encoding: sign bit 31, biased exponent in bits
  30..23, fraction in bits 22..0. The calibration values reach the program as bytes
  read from the device's flash, so every bit pattern is a possible argument.
\<close>

type_synonym float = "32 word"

definition float_of_bits :: "float \<Rightarrow> fp" where
  "float_of_bits w =
     (let s = bit w 31; e = unat (drop_bit 23 w AND 0xFF); f = unat (w AND 0x7FFFFF) in
      if e = 255 then (if f = 0 then Infinity s else NaN)
      else if e = 0 then Finite s (of_nat f * pow2 (- 149))
      else Finite s (of_nat (2 ^ 23 + f) * pow2 (int e - 150)))"

text \<open>
  The cast \<^verbatim>\<open>(int32_t)x\<close> of a \<^verbatim>\<open>double\<close> discards the fraction (truncation toward
  zero). When the operand is a NaN, an infinity, or its integral part is not an
  \<^verbatim>\<open>int32_t\<close> value, C leaves the result open (Annex F.4: an unspecified value); the
  value the platform delivers there is the parameter \<open>unspec\<close>.
\<close>

type_synonym int32 = "32 word"

definition fp_to_int32 :: "(fp \<Rightarrow> int32) \<Rightarrow> fp \<Rightarrow> int32" where
  "fp_to_int32 unspec x =
     (case x of
        Finite s m \<Rightarrow>
          (let t = (if s then - \<lfloor>m\<rfloor> else \<lfloor>m\<rfloor>) in
           if - (2 ^ 31) \<le> t \<and> t < 2 ^ 31 then word_of_int t else unspec x)
      | Infinity s \<Rightarrow> unspec x
      | NaN \<Rightarrow> unspec x)"

text \<open>
  The operands on which the cast \<^verbatim>\<open>(int32_t)x\<close> has a defined value: the finite ones whose
  integral part is an \<^verbatim>\<open>int32_t\<close> value.
\<close>

definition in_int32_range :: "fp \<Rightarrow> bool" where
  "in_int32_range x =
     (case x of
        Finite s m \<Rightarrow>
          (let t = (if s then - \<lfloor>m\<rfloor> else \<lfloor>m\<rfloor>) in - (2 ^ 31) \<le> t \<and> t < 2 ^ 31)
      | Infinity s \<Rightarrow> False
      | NaN \<Rightarrow> False)"

text \<open>
  A datum is finite when it is neither an infinity nor a NaN; its value is then the signed
  magnitude. Every datum the operations produce from bit patterns has a non-negative
  magnitude.
\<close>

fun fp_finite :: "fp \<Rightarrow> bool" where
  "fp_finite (Finite s m) = True"
| "fp_finite (Infinity s) = False"
| "fp_finite NaN = False"

fun fp_value :: "fp \<Rightarrow> rat" where
  "fp_value (Finite s m) = fp_val s m"
| "fp_value (Infinity s) = 0"
| "fp_value NaN = 0"

fun fp_wf :: "fp \<Rightarrow> bool" where
  "fp_wf (Finite s m) = (0 \<le> m)"
| "fp_wf (Infinity s) = True"
| "fp_wf NaN = True"

section \<open>ZmodADC.c\<close>

subsection \<open>Declarations\<close>

definition ADC1410_IDEAL_RANGE_ADC_HIGH :: fp where
  "ADC1410_IDEAL_RANGE_ADC_HIGH = fp_lit binary64 1"

definition ADC1410_IDEAL_RANGE_ADC_LOW :: fp where
  "ADC1410_IDEAL_RANGE_ADC_LOW = fp_lit binary64 25"

definition ADC1410_REAL_RANGE_ADC_HIGH :: fp where
  "ADC1410_REAL_RANGE_ADC_HIGH = fp_lit binary64 (1086 / 1000)"

definition ADC1410_REAL_RANGE_ADC_LOW :: fp where
  "ADC1410_REAL_RANGE_ADC_LOW = fp_lit binary64 (2625 / 100)"

text \<open>
  The one global variable the file declares, \<^verbatim>\<open>extern BOOL dpmutilfVerbose\<close>. Every
  function of the file receives the global state as its first argument.
\<close>

record globals =
  dpmutilfVerbose :: bool

subsection \<open>ComputeMultCoefADC1410 and ComputeAddCoefADC1410\<close>

text \<open>
  The \<^verbatim>\<open>double\<close> product of \<^verbatim>\<open>ComputeMultCoefADC1410\<close>, before the assignment to \<^verbatim>\<open>fval\<close>
  converts it to \<^verbatim>\<open>float\<close>.
\<close>

definition MultCoef_product :: "float \<Rightarrow> bool \<Rightarrow> fp" where
  "MultCoef_product cg fHighGain =
     fp_mul binary64
       (fp_mul binary64
          (if fHighGain
           then fp_div binary64 ADC1410_REAL_RANGE_ADC_HIGH ADC1410_IDEAL_RANGE_ADC_HIGH
           else fp_div binary64 ADC1410_REAL_RANGE_ADC_LOW ADC1410_IDEAL_RANGE_ADC_LOW)
          (fp_add binary32 (fp_of_int binary32 1) (float_of_bits cg)))
       (fp_of_int binary32 (2 ^ 16))"

text \<open>
  The value assigned to \<^verbatim>\<open>fval\<close> in \<^verbatim>\<open>ComputeMultCoefADC1410\<close>: the quotient of the two
  \<^verbatim>\<open>double\<close> constants, times the \<^verbatim>\<open>float\<close> sum \<^verbatim>\<open>1 + cg\<close> (promoted to \<^verbatim>\<open>double\<close> for
  the product), times \<^verbatim>\<open>(float)(1<<16)\<close>, the \<^verbatim>\<open>double\<close> product then converted to
  \<^verbatim>\<open>float\<close> by the assignment.
\<close>

definition MultCoef_fval :: "float \<Rightarrow> bool \<Rightarrow> fp" where
  "MultCoef_fval cg fHighGain =
     fp_cvt binary32
       (fp_mul binary64
          (fp_mul binary64
             (if fHighGain
              then fp_div binary64 ADC1410_REAL_RANGE_ADC_HIGH ADC1410_IDEAL_RANGE_ADC_HIGH
              else fp_div binary64 ADC1410_REAL_RANGE_ADC_LOW ADC1410_IDEAL_RANGE_ADC_LOW)
             (fp_add binary32 (fp_of_int binary32 1) (float_of_bits cg)))
          (fp_of_int binary32 (2 ^ 16)))"

text \<open>
  The value assigned to \<^verbatim>\<open>fval\<close> in \<^verbatim>\<open>ComputeAddCoefADC1410\<close>: \<^verbatim>\<open>ca\<close> promoted to
  \<^verbatim>\<open>double\<close>, divided by the ideal range, times \<^verbatim>\<open>(float)(1<<17)\<close>, converted to
  \<^verbatim>\<open>float\<close>.
\<close>

definition AddCoef_fval :: "float \<Rightarrow> bool \<Rightarrow> fp" where
  "AddCoef_fval ca fHighGain =
     fp_cvt binary32
       (fp_mul binary64
          (fp_div binary64 (float_of_bits ca)
             (if fHighGain then ADC1410_IDEAL_RANGE_ADC_HIGH else ADC1410_IDEAL_RANGE_ADC_LOW))
          (fp_of_int binary32 (2 ^ 17)))"

text \<open>The statement \<^verbatim>\<open>ival = (int32_t)(fval + 0.5);\<close> of both functions.\<close>

definition round_ival :: "(fp \<Rightarrow> int32) \<Rightarrow> fp \<Rightarrow> int32" where
  "round_ival unspec fval = fp_to_int32 unspec (fp_add binary64 fval (fp_lit binary64 (1 / 2)))"

text \<open>
  The cast of \<^verbatim>\<open>fval + 0.5\<close> has a defined value: the \<^verbatim>\<open>double\<close> sum is finite and its
  integral part is an \<^verbatim>\<open>int32_t\<close> value.
\<close>

definition cast_defined :: "fp \<Rightarrow> bool" where
  "cast_defined fval = in_int32_range (fp_add binary64 fval (fp_lit binary64 (1 / 2)))"

text \<open>The statement \<^verbatim>\<open>ival &= (1<<18) - 1;\<close> of both functions.\<close>

definition keep18 :: "int32 \<Rightarrow> int32" where
  "keep18 ival = ival AND (push_bit 18 1 - 1)"

definition ComputeMultCoefADC1410 :: "globals \<Rightarrow> (fp \<Rightarrow> int32) \<Rightarrow> float \<Rightarrow> bool \<Rightarrow> int32" where
  "ComputeMultCoefADC1410 g unspec cg fHighGain =
     (let fval = MultCoef_fval cg fHighGain;
          ival = round_ival unspec fval;
          ival = keep18 ival
      in ival)"

definition ComputeAddCoefADC1410 :: "globals \<Rightarrow> (fp \<Rightarrow> int32) \<Rightarrow> float \<Rightarrow> bool \<Rightarrow> int32" where
  "ComputeAddCoefADC1410 g unspec ca fHighGain =
     (let fval = AddCoef_fval ca fHighGain;
          ival = round_ival unspec fval;
          ival = keep18 ival
      in ival)"

subsection \<open>FDisplayZmodADCCal\<close>

text \<open>
  The calibration structure read from the device (ZmodADC.h is not among the sources):
  the function uses its field \<^verbatim>\<open>date\<close> and the array \<^verbatim>\<open>cal[2][2][2]\<close> of floats, indexed
  by channel, gain setting and coefficient kind.
\<close>

record ZMOD_ADC_CAL =
  date :: "32 word"
  cal :: "nat \<Rightarrow> nat \<Rightarrow> nat \<Rightarrow> float"

text \<open>
  What the function takes from outside the file: \<^verbatim>\<open>SyzygyI2cRead\<close> (syzygy.h), which
  returns a \<^verbatim>\<open>BOOL\<close>, the count stored through its last argument and the buffer it
  filled; the two flash addresses and the size of the structure (ZmodADC.h); the C
  library's \<^verbatim>\<open>localtime_r\<close> followed by \<^verbatim>\<open>strftime\<close>, as the string written to
  \<^verbatim>\<open>szDate\<close> (empty when \<^verbatim>\<open>strftime\<close> returns 0); and the platform's result of an
  invalid conversion to \<^verbatim>\<open>int32_t\<close>.
\<close>

record externals =
  SyzygyI2cRead :: "int \<Rightarrow> 8 word \<Rightarrow> 16 word \<Rightarrow> nat \<Rightarrow> bool \<times> 16 word \<times> ZMOD_ADC_CAL"
  addrAdcFactCalStart :: "16 word"
  addrAdcUserCalStart :: "16 word"
  sizeof_ZMOD_ADC_CAL :: nat
  strftime_local :: "32 word \<Rightarrow> string"
  cvt_invalid :: "fp \<Rightarrow> int32"

text \<open>
  The text written to stdout is the sequence of \<^verbatim>\<open>printf\<close> calls, each with its format
  string and its arguments after the default argument promotions.
\<close>

datatype printf_arg = ArgInt int | ArgUInt "32 word" | ArgDouble float | ArgStr string

datatype printf_call = Printf string "printf_arg list"

text \<open>The calls that follow a failed read (lines 111-112 and 141-142).\<close>

definition read_error :: "string \<Rightarrow> externals \<Rightarrow> 8 word \<Rightarrow> 16 word \<Rightarrow> printf_call list" where
  "read_error fmt ext addrI2cSlave cbRead =
     [Printf fmt [ArgInt (uint addrI2cSlave)],
      Printf ''Error: received %d of %d bytes\<newline>''
        [ArgInt (uint cbRead), ArgInt (int (sizeof_ZMOD_ADC_CAL ext))]]"

text \<open>The date line of a region (lines 116-120 and 146-150).\<close>

definition date_line :: "string \<Rightarrow> externals \<Rightarrow> ZMOD_ADC_CAL \<Rightarrow> printf_call list" where
  "date_line fmt ext adcal =
     (let szDate = strftime_local ext (date adcal) in
      if length szDate \<noteq> 0 then [Printf fmt [ArgStr szDate]] else [])"

text \<open>
  The sixteen calls that display a calibration structure: the eight stored values and
  the eight coefficients computed from them (lines 122-138, and again lines 152-168).
\<close>

definition cal_lines :: "globals \<Rightarrow> externals \<Rightarrow> ZMOD_ADC_CAL \<Rightarrow> printf_call list" where
  "cal_lines g ext adcal =
     [Printf ''    CHAN_1_LG_GAIN:        %f\<newline>'' [ArgDouble (cal adcal 0 0 0)],
      Printf ''    CHAN_1_LG_OFFSET:      %f\<newline>'' [ArgDouble (cal adcal 0 0 1)],
      Printf ''    CHAN_1_HG_GAIN:        %f\<newline>'' [ArgDouble (cal adcal 0 1 0)],
      Printf ''    CHAN_1_HG_OFFSET:      %f\<newline>'' [ArgDouble (cal adcal 0 1 1)],
      Printf ''    CHAN_2_LG_GAIN:        %f\<newline>'' [ArgDouble (cal adcal 1 0 0)],
      Printf ''    CHAN_2_LG_OFFSET:      %f\<newline>'' [ArgDouble (cal adcal 1 0 1)],
      Printf ''    CHAN_2_HG_GAIN:        %f\<newline>'' [ArgDouble (cal adcal 1 1 0)],
      Printf ''    CHAN_2_HG_OFFSET:      %f\<newline>'' [ArgDouble (cal adcal 1 1 1)],
      Printf ''    Ch1LgCoefMultStatic:   0x%05X\<newline>''
        [ArgUInt (ComputeMultCoefADC1410 g (cvt_invalid ext) (cal adcal 0 0 0) False)],
      Printf ''    Ch1LgCoefAddStatic:    0x%05X\<newline>''
        [ArgUInt (ComputeAddCoefADC1410 g (cvt_invalid ext) (cal adcal 0 0 1) False)],
      Printf ''    Ch1HgCoefMultStatic:   0x%05X\<newline>''
        [ArgUInt (ComputeMultCoefADC1410 g (cvt_invalid ext) (cal adcal 0 1 0) True)],
      Printf ''    Ch1HgCoefAddStatic:    0x%05X\<newline>''
        [ArgUInt (ComputeAddCoefADC1410 g (cvt_invalid ext) (cal adcal 0 1 1) True)],
      Printf ''    Ch2LgCoefMultStatic:   0x%05X\<newline>''
        [ArgUInt (ComputeMultCoefADC1410 g (cvt_invalid ext) (cal adcal 1 0 0) False)],
      Printf ''    Ch2LgCoefAddStatic:    0x%05X\<newline>''
        [ArgUInt (ComputeAddCoefADC1410 g (cvt_invalid ext) (cal adcal 1 0 1) False)],
      Printf ''    Ch2HgCoefMultStatic:   0x%05X\<newline>''
        [ArgUInt (ComputeMultCoefADC1410 g (cvt_invalid ext) (cal adcal 1 1 0) True)],
      Printf ''    Ch2HgCoefAddStatic:    0x%05X\<newline>''
        [ArgUInt (ComputeAddCoefADC1410 g (cvt_invalid ext) (cal adcal 1 1 1) True)]]"

text \<open>The function returns its \<^verbatim>\<open>BOOL\<close> result together with the calls it made.\<close>

definition FDisplayZmodADCCal ::
  "globals \<Rightarrow> externals \<Rightarrow> int \<Rightarrow> 8 word \<Rightarrow> bool \<times> printf_call list" where
  "FDisplayZmodADCCal g ext fdI2cDev addrI2cSlave =
     (case SyzygyI2cRead ext fdI2cDev addrI2cSlave (addrAdcFactCalStart ext)
             (sizeof_ZMOD_ADC_CAL ext) of
        (ok, cbRead, adcal) \<Rightarrow>
          if \<not> ok then
            (False,
             read_error ''Error: failed to read ZmodADC factory calibration from 0x%02X\<newline>''
               ext addrI2cSlave cbRead)
          else
            let out =
              date_line ''\<newline>    Factory Calibration:   %s\<newline>'' ext adcal
              @ cal_lines g ext adcal
            in
              (case SyzygyI2cRead ext fdI2cDev addrI2cSlave (addrAdcUserCalStart ext)
                      (sizeof_ZMOD_ADC_CAL ext) of
                 (ok, cbRead, adcal) \<Rightarrow>
                   if \<not> ok then
                     (False,
                      out @ read_error
                        ''Error: failed to read ZmodADC user calibration from 0x%02X\<newline>''
                        ext addrI2cSlave cbRead)
                   else
                     (True,
                      out @ date_line ''\<newline>    User Calibration:      %s\<newline>'' ext adcal
                      @ cal_lines g ext adcal)))"

text \<open>
  The conversion \<^verbatim>\<open>0x%05X\<close> of the coefficient lines: the literal prefix, then the
  argument in upper-case hexadecimal, padded with zeros to at least five digits.
\<close>

definition hex_digit :: "nat \<Rightarrow> char" where
  "hex_digit d = ''0123456789ABCDEF'' ! d"

function hex_digits :: "nat \<Rightarrow> string" where
  "hex_digits n =
     (if n < 16 then [hex_digit n] else hex_digits (n div 16) @ [hex_digit (n mod 16)])"
  by pat_completeness auto
termination
  by (relation "measure id") auto

definition render_0x05X :: "32 word \<Rightarrow> string" where
  "render_0x05X w =
     (let ds = hex_digits (unat w) in ''0x'' @ replicate (5 - length ds) (CHR ''0'') @ ds)"

subsection \<open>The bus read, from the specification\<close>

text \<open>
  Modelled from the spec: \<^verbatim>\<open>SyzygyI2cRead\<close> (the calibration reader's bus read; syzygy.c is
  not among the sources). The transport collaborator performs one transaction and
  reports whether it failed and how many bytes it transferred; the read fails when the
  transport reports failure or transferred fewer bytes than the record size, and it
  hands back the count of bytes received.
\<close>

record transfer_result =
  failed :: bool
  bytesTransferred :: "16 word"
  payload :: ZMOD_ADC_CAL

definition SyzygyI2cRead_spec ::
  "(int \<Rightarrow> 8 word \<Rightarrow> 16 word \<Rightarrow> nat \<Rightarrow> transfer_result)
   \<Rightarrow> int \<Rightarrow> 8 word \<Rightarrow> 16 word \<Rightarrow> nat \<Rightarrow> bool \<times> 16 word \<times> ZMOD_ADC_CAL" where
  "SyzygyI2cRead_spec transfer fd slave addr cb =
     (let r = transfer fd slave addr cb in
      (\<not> (failed r \<or> unat (bytesTransferred r) < cb), bytesTransferred r, payload r))"

subsection \<open>The formulas of the specification\<close>

text \<open>
  The multiplicative and the additive coefficient as the specification words them, in
  exact arithmetic: the ratio of actual to ideal full scale, the scaling by a power of
  two, one half added, truncation toward zero, the low 18 bits kept.
\<close>

definition trunc_rat :: "rat \<Rightarrow> int" where
  "trunc_rat x = (if x < 0 then - \<lfloor>- x\<rfloor> else \<lfloor>x\<rfloor>)"

definition spec_MultCoef :: "rat \<Rightarrow> bool \<Rightarrow> int32" where
  "spec_MultCoef gainError high =
     (let Ratio = (if high then (1086 / 1000) / 1 else (2625 / 100) / 25);
          Scaled = Ratio * (1 + gainError) * 2 ^ 16;
          roundedValue = trunc_rat (Scaled + 1 / 2)
      in word_of_int roundedValue AND 0x3FFFF)"

definition spec_AddCoef :: "rat \<Rightarrow> bool \<Rightarrow> int32" where
  "spec_AddCoef offsetError high =
     (let idealFullScale = (if high then 1 else 25);
          Scaled = (offsetError / idealFullScale) * 2 ^ 17;
          roundedValue = trunc_rat (Scaled + 1 / 2)
      in word_of_int roundedValue AND 0x3FFFF)"

subsection \<open>The formulas with the rounding of each C operation\<close>

text \<open>
  Rounding a signed rational to binary32 and to binary64 (to nearest, ties to even, the
  range unbounded), and the two formulas of the specification with every operation rounded
  to the type it has in the C code: the sum \<open>1 + gainError\<close> and the value stored in
  \<^verbatim>\<open>fval\<close> to \<^verbatim>\<open>float\<close>, the literals, quotients, products and the sum with one half
  to \<^verbatim>\<open>double\<close>.
\<close>

definition round_to :: "fp_format \<Rightarrow> rat \<Rightarrow> rat" where
  "round_to fmt x =
     (if x < 0 then - rnd (prec fmt) (emin fmt) (- x) else rnd (prec fmt) (emin fmt) x)"

definition to_float :: "rat \<Rightarrow> rat" where
  "to_float x = round_to binary32 x"

definition to_double :: "rat \<Rightarrow> rat" where
  "to_double x = round_to binary64 x"

definition rounded_MultCoef :: "rat \<Rightarrow> bool \<Rightarrow> int32" where
  "rounded_MultCoef gainError high =
     (let Ratio = (if high then to_double (to_double (1086 / 1000) / to_double 1)
                   else to_double (to_double (2625 / 100) / to_double 25));
          Scaled = to_float (to_double (to_double (Ratio * to_float (1 + gainError)) * 2 ^ 16));
          roundedValue = trunc_rat (to_double (Scaled + 1 / 2))
      in word_of_int roundedValue AND 0x3FFFF)"

definition rounded_AddCoef :: "rat \<Rightarrow> bool \<Rightarrow> int32" where
  "rounded_AddCoef offsetError high =
     (let idealFullScale = (if high then to_double 1 else to_double 25);
          Scaled = to_float (to_double (to_double (offsetError / idealFullScale) * 2 ^ 17));
          roundedValue = trunc_rat (to_double (Scaled + 1 / 2))
      in word_of_int roundedValue AND 0x3FFFF)"

text \<open>The value stored in \<^verbatim>\<open>fval\<close>, each operation rounded to its C type.\<close>

definition rounded_MultScaled :: "rat \<Rightarrow> bool \<Rightarrow> rat" where
  "rounded_MultScaled gainError high =
     (let Ratio = (if high then to_double (to_double (1086 / 1000) / to_double 1)
                   else to_double (to_double (2625 / 100) / to_double 25))
      in to_float (to_double (to_double (Ratio * to_float (1 + gainError)) * 2 ^ 16)))"

definition rounded_AddScaled :: "rat \<Rightarrow> bool \<Rightarrow> rat" where
  "rounded_AddScaled offsetError high =
     (let idealFullScale = (if high then to_double 1 else to_double 25)
      in to_float (to_double (to_double (offsetError / idealFullScale) * 2 ^ 17)))"

text \<open>Rounding to the nearest integer, a tie away from zero.\<close>

definition round_half_away :: "rat \<Rightarrow> int" where
  "round_half_away x = (if x < 0 then - \<lfloor>- x + 1 / 2\<rfloor> else \<lfloor>x + 1 / 2\<rfloor>)"

subsection \<open>Concrete inputs\<close>

definition g_off :: globals where
  "g_off = \<lparr>dpmutilfVerbose = False\<rparr>"

text \<open>A platform whose invalid conversions deliver \<^verbatim>\<open>0x80000000\<close>.\<close>

definition cvt_indefinite :: "fp \<Rightarrow> int32" where
  "cvt_indefinite x = 0x80000000"

definition cal_zero :: ZMOD_ADC_CAL where
  "cal_zero = \<lparr>date = 0, cal = (\<lambda>ch gain kind. 0)\<rparr>"

text \<open>A device whose factory region cannot be read and whose user region can.\<close>

definition ext_fact_fails :: externals where
  "ext_fact_fails =
     \<lparr>SyzygyI2cRead = (\<lambda>fd slave addr cb.
          if addr = 0x8100 then (False, 0, cal_zero) else (True, 128, cal_zero)),
      addrAdcFactCalStart = 0x8100,
      addrAdcUserCalStart = 0x7000,
      sizeof_ZMOD_ADC_CAL = 128,
      strftime_local = (\<lambda>d. ''January 01, 1970 at 00:00:00''),
      cvt_invalid = cvt_indefinite\<rparr>"

text \<open>
  A transport that delivers 100 of the bytes of the factory region, and one that delivers
  the factory region whole and fails on the user region.
\<close>

definition transfer_short :: "int \<Rightarrow> 8 word \<Rightarrow> 16 word \<Rightarrow> nat \<Rightarrow> transfer_result" where
  "transfer_short fd slave addr cb =
     \<lparr>failed = False, bytesTransferred = 100, payload = cal_zero\<rparr>"

definition transfer_user_fails :: "int \<Rightarrow> 8 word \<Rightarrow> 16 word \<Rightarrow> nat \<Rightarrow> transfer_result" where
  "transfer_user_fails fd slave addr cb =
     (if addr = 0x8100
      then \<lparr>failed = False, bytesTransferred = 128, payload = cal_zero\<rparr>
      else \<lparr>failed = True, bytesTransferred = 0, payload = cal_zero\<rparr>)"

section \<open>Arithmetic lemmas\<close>

subsection \<open>Powers of two\<close>

lemma pow2_powi: "pow2 k = 2 powi k"
  by (simp add: pow2_def power_int_def inverse_eq_divide power_one_over)

lemma pow2_pos: "0 < pow2 k"
  by (simp add: pow2_powi)

lemma pow2_add: "pow2 (a + b) = pow2 a * pow2 b"
  by (simp add: pow2_powi power_int_add)

lemma pow2_diff: "pow2 (a - b) = pow2 a / pow2 b"
  by (simp add: pow2_powi power_int_diff)

lemma pow2_mono: "a \<le> b \<Longrightarrow> pow2 a \<le> pow2 b"
  by (simp add: pow2_powi power_int_increasing)

lemma pow2_strict_mono: "a < b \<Longrightarrow> pow2 a < pow2 b"
  by (simp add: pow2_powi power_int_strict_increasing)

lemma pow2_less_cancel: "pow2 a < pow2 b \<Longrightarrow> a < b"
  using pow2_mono [of b a] by (cases "a < b") auto

lemma pow2_nat: "0 \<le> k \<Longrightarrow> pow2 k = of_int (2 ^ nat k)"
  by (simp add: pow2_def)

subsection \<open>The binary exponent\<close>

lemma rat_pow2_le_of_int: "2 ^ n \<le> (f::int) \<Longrightarrow> (2::rat) ^ n \<le> of_int f"
proof -
  assume "2 ^ n \<le> f"
  then have "(of_int (2 ^ n) :: rat) \<le> of_int f"
    by (simp only: of_int_le_iff)
  then show ?thesis
    by simp
qed

lemma rat_of_int_le_pow2: "(f::int) \<le> 2 ^ n \<Longrightarrow> (of_int f :: rat) \<le> 2 ^ n"
proof -
  assume "f \<le> 2 ^ n"
  then have "(of_int f :: rat) \<le> of_int (2 ^ n)"
    by (simp only: of_int_le_iff)
  then show ?thesis
    by simp
qed

lemma ilog2_bounds:
  assumes "0 < r"
  shows "pow2 (ilog2 r) \<le> r" and "r < pow2 (ilog2 r + 1)"
proof -
  have "pow2 (ilog2 r) \<le> r \<and> r < pow2 (ilog2 r + 1)"
  proof (cases "1 \<le> r")
    case True
    define f where "f = \<lfloor>r\<rfloor>"
    have f: "1 \<le> f" "of_int f \<le> r" "r < of_int f + 1"
      using True floor_correct [of r] by (simp_all add: f_def le_floor_iff)
    define b where "b = bitlen f"
    have b: "2 ^ nat (b - 1) \<le> f" "f < 2 ^ nat b"
      using bitlen_bounds [of f] f(1) by (simp_all add: b_def)
    have b1: "1 \<le> b"
      using f(1) bitlen_nonneg [of f] bitlen_eq_zero_iff [of f] by (simp add: b_def)
    have e1: "pow2 (b - 1) = 2 ^ nat (b - 1)" and e2: "pow2 b = 2 ^ nat b"
      using b1 by (simp_all add: pow2_def)
    have "(2::rat) ^ nat (b - 1) \<le> of_int f"
      using b(1) by (rule rat_pow2_le_of_int)
    then have lo: "pow2 (b - 1) \<le> r"
      using f(2) e1 by linarith
    have "f + 1 \<le> 2 ^ nat b"
      using b(2) by simp
    then have "(of_int (f + 1) :: rat) \<le> 2 ^ nat b"
      by (rule rat_of_int_le_pow2)
    then have hi: "r < pow2 b"
      using f(3) e2 by simp
    have "ilog2 r = b - 1"
      using True by (simp add: ilog2_def f_def b_def)
    then show ?thesis
      using lo hi by simp
  next
    case False
    define y where "y = 1 / r"
    have y: "1 < y" "r = 1 / y" "0 < y"
      using False assms by (simp_all add: y_def)
    define c where "c = \<lceil>y\<rceil>"
    have c: "y \<le> of_int c" "of_int c - 1 < y"
      using ceiling_correct [of y] by (simp_all add: c_def)
    have c2: "2 \<le> c"
    proof -
      have "(1::rat) < of_int c"
        using y(1) c(1) by linarith
      then have "1 < c"
        by simp
      then show ?thesis
        by simp
    qed
    define b where "b = bitlen (c - 1)"
    have b: "2 ^ nat (b - 1) \<le> c - 1" "c - 1 < 2 ^ nat b"
      using bitlen_bounds [of "c - 1"] c2 by (simp_all add: b_def)
    have b1: "1 \<le> b"
      using c2 bitlen_nonneg [of "c - 1"] bitlen_eq_zero_iff [of "c - 1"]
      by (simp add: b_def)
    have e1: "pow2 (- b) = 1 / 2 ^ nat b"
      using b1 by (simp add: pow2_def)
    have e2: "pow2 (- b + 1) = 1 / 2 ^ nat (b - 1)"
    proof (cases "b = 1")
      case True
      then show ?thesis by (simp add: pow2_def)
    next
      case False
      then have "- b + 1 < 0" "nat (- (- b + 1)) = nat (b - 1)"
        using b1 by simp_all
      then show ?thesis by (simp add: pow2_def)
    qed
    have "c \<le> 2 ^ nat b"
      using b(2) by simp
    then have "(of_int c :: rat) \<le> 2 ^ nat b"
      by (rule rat_of_int_le_pow2)
    then have yb: "y \<le> 2 ^ nat b"
      using c(1) by linarith
    have "(2::rat) ^ nat (b - 1) \<le> of_int (c - 1)"
      using b(1) by (rule rat_pow2_le_of_int)
    then have by': "2 ^ nat (b - 1) < y"
      using c(2) by simp
    have "1 / 2 ^ nat b \<le> 1 / y"
      using yb y(3) by (simp add: frac_le)
    then have lo: "pow2 (- b) \<le> r"
      using y(2) e1 by simp
    have "1 / y < 1 / 2 ^ nat (b - 1)"
      using by' y(3) by (simp add: frac_less2)
    then have hi: "r < pow2 (- b + 1)"
      using y(2) e2 by simp
    have "ilog2 r = - b"
      using False by (simp add: ilog2_def y_def c_def b_def)
    then show ?thesis
      using lo hi by simp
  qed
  then show "pow2 (ilog2 r) \<le> r" and "r < pow2 (ilog2 r + 1)"
    by simp_all
qed


lemma ilog2_mono:
  assumes "0 < x" and "x \<le> y"
  shows "ilog2 x \<le> ilog2 y"
proof -
  have "pow2 (ilog2 x) < pow2 (ilog2 y + 1)"
    using ilog2_bounds(1) [OF assms(1)] ilog2_bounds(2) [of y] assms by simp
  then have "ilog2 x < ilog2 y + 1"
    by (rule pow2_less_cancel)
  then show ?thesis
    by simp
qed

lemma ilog2_less_pow2:
  assumes "0 < r" and "r < pow2 k"
  shows "ilog2 r < k"
proof -
  have "pow2 (ilog2 r) < pow2 k"
    using ilog2_bounds(1) [OF assms(1)] assms(2) by simp
  then show ?thesis
    by (rule pow2_less_cancel)
qed

subsection \<open>Rounding to the nearest integer\<close>

lemma rne_of_int: "rne (of_int n) = n"
  by (simp add: rne_def)

lemma rne_cases:
  "rne t = \<lfloor>t\<rfloor> \<and> t - of_int \<lfloor>t\<rfloor> \<le> 1 / 2 \<or> rne t = \<lfloor>t\<rfloor> + 1 \<and> 1 / 2 \<le> t - of_int \<lfloor>t\<rfloor>"
  by (simp add: rne_def Let_def)

lemma rne_ge_floor: "\<lfloor>t\<rfloor> \<le> rne t"
  using rne_cases [of t] by auto

lemma rne_le_ceiling: "rne t \<le> \<lfloor>t\<rfloor> + 1"
  using rne_cases [of t] by auto

lemma rne_mono:
  assumes "x \<le> y"
  shows "rne x \<le> rne y"
proof (cases "\<lfloor>x\<rfloor> = \<lfloor>y\<rfloor>")
  case True
  then have "x - of_int \<lfloor>x\<rfloor> \<le> y - of_int \<lfloor>y\<rfloor>"
    using assms by simp
  then show ?thesis
    using True by (auto simp add: rne_def Let_def)
next
  case False
  then have "\<lfloor>x\<rfloor> < \<lfloor>y\<rfloor>"
    using floor_mono [OF assms] by simp
  then have "\<lfloor>x\<rfloor> + 1 \<le> \<lfloor>y\<rfloor>"
    by simp
  then show ?thesis
    using rne_le_ceiling [of x] rne_ge_floor [of y] by linarith
qed

lemma rne_le_int: "t \<le> of_int n \<Longrightarrow> rne t \<le> n"
  using rne_mono [of t "of_int n"] by (simp add: rne_of_int)

lemma rne_ge_int: "of_int n \<le> t \<Longrightarrow> n \<le> rne t"
  using rne_mono [of "of_int n" t] by (simp add: rne_of_int)

subsection \<open>Rounding a magnitude\<close>

lemma rnd_unfold:
  "r \<noteq> 0 \<Longrightarrow>
   rnd p em r = of_int (rne (r / pow2 (max (ilog2 r) em - int p + 1)))
     * pow2 (max (ilog2 r) em - int p + 1)"
  by (simp add: rnd_def Let_def)

lemma rnd_zero: "rnd p em 0 = 0"
  by (simp add: rnd_def)

lemma rnd_nonneg:
  assumes "0 \<le> r"
  shows "0 \<le> rnd p em r"
proof (cases "r = 0")
  case True
  then show ?thesis by (simp add: rnd_zero)
next
  case False
  let ?q = "pow2 (max (ilog2 r) em - int p + 1)"
  have "0 \<le> r / ?q"
    using assms pow2_pos [of "max (ilog2 r) em - int p + 1"] by simp
  then have "0 \<le> rne (r / ?q)"
    using rne_ge_int [of 0 "r / ?q"] by simp
  then show ?thesis
    using False pow2_pos [of "max (ilog2 r) em - int p + 1"] by (simp add: rnd_unfold)
qed

lemma pow2_int: "pow2 (int n) = 2 ^ n"
  by (simp add: pow2_def)

text \<open>A magnitude with at most \<open>p\<close> significant bits and a large enough exponent is kept.\<close>

lemma rnd_exact:
  assumes n: "0 < n" "n < 2 ^ p" and k: "em - int p + 1 \<le> k"
  shows "rnd p em (of_int n * pow2 k) = of_int n * pow2 k"
proof -
  define r :: rat where "r = of_int n * pow2 k"
  have r: "0 < r"
    using n(1) pow2_pos [of k] by (simp add: r_def)
  have "(of_int n :: rat) < 2 ^ p"
    using n(2) by (metis of_int_less_iff of_int_numeral of_int_power)
  then have "r < pow2 (int p) * pow2 k"
    using pow2_pos [of k] by (simp add: pow2_int r_def)
  then have "r < pow2 (int p + k)"
    by (simp add: pow2_add)
  then have "ilog2 r < int p + k"
    using r by (rule ilog2_less_pow2 [rotated])
  define e where "e = max (ilog2 r) em - int p + 1"
  have le: "e \<le> k"
    using k \<open>ilog2 r < int p + k\<close> by (simp add: e_def)
  define j where "j = k - e"
  have j: "0 \<le> j" "k = e + j"
    using le by (simp_all add: j_def)
  have q: "0 < pow2 e" by (rule pow2_pos)
  have split: "pow2 k = pow2 e * pow2 j"
    by (simp only: j(2) pow2_add)
  have "r / pow2 e = of_int n * (pow2 e * pow2 j) / pow2 e"
    by (simp only: r_def split)
  also have "\<dots> = of_int n * pow2 j"
    using q by simp
  also have "\<dots> = of_int (n * 2 ^ nat j)"
    using j(1) by (simp add: pow2_nat)
  finally have "rne (r / pow2 e) = n * 2 ^ nat j"
    by (simp only: rne_of_int)
  then have "rnd p em r = of_int (n * 2 ^ nat j) * pow2 e"
    using r by (simp add: rnd_unfold e_def)
  also have "\<dots> = of_int n * (pow2 e * pow2 j)"
    using j(1) by (simp add: pow2_nat)
  also have "\<dots> = r"
    by (simp only: r_def split)
  finally show ?thesis
    by (simp only: r_def)
qed

lemma rnd_upper:
  assumes "0 < r"
  shows "rnd p em r \<le> pow2 (max (ilog2 r) em + 1)"
proof -
  let ?e = "max (ilog2 r) em"
  let ?q = "pow2 (?e - int p + 1)"
  have q: "0 < ?q" by (rule pow2_pos)
  have "r < pow2 (ilog2 r + 1)"
    using assms by (rule ilog2_bounds)
  also have "\<dots> \<le> pow2 (?e + 1)"
    by (rule pow2_mono) simp
  also have "\<dots> = pow2 (int p) * ?q"
    by (simp add: pow2_add [symmetric])
  finally have "r / ?q < pow2 (int p)"
    using q by (simp add: pos_divide_less_eq)
  then have "r / ?q \<le> of_int (2 ^ p)"
    by (simp add: pow2_int)
  then have "rne (r / ?q) \<le> 2 ^ p"
    by (rule rne_le_int)
  then have "(of_int (rne (r / ?q)) :: rat) \<le> 2 ^ p"
    by (rule rat_of_int_le_pow2)
  then have "of_int (rne (r / ?q)) * ?q \<le> 2 ^ p * ?q"
    using q by simp
  also have "\<dots> = pow2 (?e + 1)"
    using \<open>pow2 (?e + 1) = pow2 (int p) * ?q\<close> by (simp add: pow2_int)
  finally show ?thesis
    using assms by (simp add: rnd_unfold)
qed

lemma rnd_lower:
  assumes "0 < r" and "em \<le> ilog2 r" and "1 \<le> p"
  shows "pow2 (ilog2 r) \<le> rnd p em r"
proof -
  let ?e = "ilog2 r"
  let ?q = "pow2 (?e - int p + 1)"
  have e: "max ?e em = ?e"
    using assms(2) by simp
  have q: "0 < ?q" by (rule pow2_pos)
  have split: "pow2 ?e = pow2 (int (p - 1)) * ?q"
    using assms(3) by (simp add: pow2_add [symmetric] of_nat_diff)
  have "pow2 ?e \<le> r"
    using assms(1) by (rule ilog2_bounds)
  then have "pow2 (int (p - 1)) \<le> r / ?q"
    using q split by (simp add: pos_le_divide_eq)
  then have "of_int (2 ^ (p - 1)) \<le> r / ?q"
    by (simp add: pow2_int)
  then have "2 ^ (p - 1) \<le> rne (r / ?q)"
    by (rule rne_ge_int)
  then have "(2::rat) ^ (p - 1) \<le> of_int (rne (r / ?q))"
    by (rule rat_pow2_le_of_int)
  then have "2 ^ (p - 1) * ?q \<le> of_int (rne (r / ?q)) * ?q"
    using q by simp
  then show ?thesis
    using assms(1) e split by (simp add: rnd_unfold pow2_int)
qed

text \<open>Rounding is monotone.\<close>

lemma rnd_mono:
  assumes "0 \<le> x" and "x \<le> y" and "1 \<le> p"
  shows "rnd p em x \<le> rnd p em y"
proof (cases "x = 0")
  case True
  then show ?thesis
    using assms rnd_nonneg [of y p em] by (simp add: rnd_zero)
next
  case False
  then have x: "0 < x" and y: "0 < y"
    using assms by simp_all
  let ?ex = "max (ilog2 x) em" and ?ey = "max (ilog2 y) em"
  have le: "?ex \<le> ?ey"
    using ilog2_mono [OF x assms(2)] by simp
  show ?thesis
  proof (cases "?ex = ?ey")
    case True
    let ?q = "pow2 (?ex - int p + 1)"
    have "x / ?q \<le> y / ?q"
      using assms(2) pow2_pos [of "?ex - int p + 1"] by (simp add: divide_right_mono)
    then have "rne (x / ?q) \<le> rne (y / ?q)"
      by (rule rne_mono)
    then have "(of_int (rne (x / ?q)) :: rat) * ?q \<le> of_int (rne (y / ?q)) * ?q"
      using pow2_pos [of "?ex - int p + 1"] by simp
    then show ?thesis
      using x y True by (simp add: rnd_unfold)
  next
    case False
    then have lt: "?ex < ?ey"
      using le by (rule order.not_eq_order_implies_strict)
    have ey: "em \<le> ilog2 y" "?ey = ilog2 y"
      using lt by linarith+
    have "rnd p em x \<le> pow2 (?ex + 1)"
      using x by (rule rnd_upper)
    also have "\<dots> \<le> pow2 (ilog2 y)"
    proof (rule pow2_mono)
      show "?ex + 1 \<le> ilog2 y"
        using lt ey(2) by linarith
    qed
    also have "\<dots> \<le> rnd p em y"
      using y ey(1) assms(3) by (rule rnd_lower)
    finally show ?thesis .
  qed
qed



subsection \<open>Evaluation on numerals\<close>

lemma bitlen_numeral_simps:
  "bitlen 1 = 1"
  "bitlen (numeral Num.One) = 1"
  "bitlen (numeral (Num.Bit0 n)) = bitlen (numeral n) + 1"
  "bitlen (numeral (Num.Bit1 n)) = bitlen (numeral n) + 1"
proof -
  show "bitlen 1 = 1" by (subst compute_bitlen) simp
  then show "bitlen (numeral Num.One) = 1" by simp
  show "bitlen (numeral (Num.Bit0 n)) = bitlen (numeral n) + 1"
    by (subst compute_bitlen) simp
  show "bitlen (numeral (Num.Bit1 n)) = bitlen (numeral n) + 1"
    by (subst compute_bitlen) simp
qed

lemma floor_rat_numeral:
  "\<lfloor>(numeral a :: rat) / numeral b\<rfloor> = numeral a div numeral b"
  by (metis floor_divide_of_int_eq of_int_numeral)

lemma floor_rat_one_numeral:
  "\<lfloor>(1 :: rat) / numeral b\<rfloor> = 1 div numeral b"
  by (metis floor_divide_of_int_eq of_int_1 of_int_numeral)

lemma ceiling_rat_one_numeral:
  "\<lceil>(1 :: rat) / numeral b\<rceil> = - (- 1 div numeral b)"
  using ceiling_divide_eq_div [of 1 "numeral b"] by simp

lemma ceiling_rat_numeral:
  "\<lceil>(numeral a :: rat) / numeral b\<rceil> = - (- numeral a div numeral b)"
  using ceiling_divide_eq_div [of "numeral a" "numeral b"] by simp

lemma format_simps:
  "prec binary32 = 24" "emin binary32 = - 126" "emax binary32 = 127"
  "prec binary64 = 53" "emin binary64 = - 1022" "emax binary64 = 1023"
  by (simp_all add: binary32_def binary64_def)

lemmas rnd_eval = rnd_def ilog2_def rne_def pow2_def Let_def
  bitlen_numeral_simps floor_rat_numeral ceiling_rat_numeral
  floor_rat_one_numeral ceiling_rat_one_numeral

lemmas fp_eval = fp_lit_def fp_of_int_def fp_round_def fp_val_def format_simps rnd_eval

lemma ideal_high: "ADC1410_IDEAL_RANGE_ADC_HIGH = Finite False 1"
  by (simp add: ADC1410_IDEAL_RANGE_ADC_HIGH_def fp_eval)

lemma ideal_low: "ADC1410_IDEAL_RANGE_ADC_LOW = Finite False 25"
  by (simp add: ADC1410_IDEAL_RANGE_ADC_LOW_def fp_eval)

lemma real_high: "ADC1410_REAL_RANGE_ADC_HIGH = Finite False (4890909195324359 / 4503599627370496)"
  by (simp add: ADC1410_REAL_RANGE_ADC_HIGH_def fp_eval)

lemma real_low: "ADC1410_REAL_RANGE_ADC_LOW = Finite False (105 / 4)"
  by (simp add: ADC1410_REAL_RANGE_ADC_LOW_def fp_eval)

lemma lit_half: "fp_lit binary64 (1 / 2) = Finite False (1 / 2)"
  by (simp add: fp_eval)

lemmas const_eval = real_high real_low ideal_high ideal_low

lemma float_of_bits_zero: "float_of_bits 0 = Finite False 0"
  by (simp add: float_of_bits_def)

lemma mult_fval_zero_low: "MultCoef_fval 0 False = Finite False (4404019 / 64)"
  by (simp add: MultCoef_fval_def const_eval float_of_bits_zero fp_eval)

lemma mult_fval_zero_high: "MultCoef_fval 0 True = Finite False (2277507 / 32)"
  by (simp add: MultCoef_fval_def const_eval float_of_bits_zero fp_eval)

lemma add_fval_zero: "AddCoef_fval 0 h = Finite False 0"
  by (simp add: AddCoef_fval_def const_eval float_of_bits_zero fp_eval)

lemmas ival_eval = round_ival_def fp_to_int32_def keep18_def fp_eval

lemma mult_zero_low: "ComputeMultCoefADC1410 g unspec 0 False = 68813"
  by (simp add: ComputeMultCoefADC1410_def mult_fval_zero_low ival_eval)

lemma mult_zero_high: "ComputeMultCoefADC1410 g unspec 0 True = 71172"
  by (simp add: ComputeMultCoefADC1410_def mult_fval_zero_high ival_eval)

lemma add_zero: "ComputeAddCoefADC1410 g unspec 0 h = 0"
  by (simp add: ComputeAddCoefADC1410_def add_fval_zero ival_eval)

lemma render_values:
  "render_0x05X 68813 = ''0x10CCD''"
  "render_0x05X 71172 = ''0x11604''"
  "render_0x05X 0 = ''0x00000''"
proof -
  have "replicate 4 (CHR ''0'') = ''0000''"
    by (simp add: eval_nat_numeral)
  then show "render_0x05X 68813 = ''0x10CCD''" "render_0x05X 71172 = ''0x11604''"
    "render_0x05X 0 = ''0x00000''"
    by (simp_all add: render_0x05X_def hex_digit_def)
qed

subsection \<open>Known values of the model\<close>

text \<open>
  The encodings and roundings of some familiar values: one tenth in both formats, ties at
  \<open>2\<^sup>2\<^sup>4\<close>, the smallest subnormal, and the overflow threshold of binary32.
\<close>

lemma float_of_bits_known:
  "float_of_bits 0x3F800000 = Finite False 1"
  "float_of_bits 0xC0490FDB = Finite True (13176795 / 4194304)"
  "float_of_bits 0x3DCCCCCD = Finite False (13421773 / 134217728)"
  "float_of_bits 0x00000001 = Finite False (1 / 713623846352979940529142984724747568191373312)"
  "float_of_bits 0x7F7FFFFF = Finite False 340282346638528859811704183484516925440"
  "float_of_bits 0xFF800000 = Infinity True"
  "float_of_bits 0x7FC00000 = NaN"
  by (simp_all add: float_of_bits_def fp_eval bit_iff_odd)

lemma rounding_known:
  "fp_lit binary32 (1 / 10) = Finite False (13421773 / 134217728)"
  "fp_lit binary64 (1 / 10) = Finite False (3602879701896397 / 36028797018963968)"
  "fp_lit binary32 16777217 = Finite False 16777216"
  "fp_lit binary32 16777219 = Finite False 16777220"
  "fp_lit binary32 (1 / 1427247692705959881058285969449495136382746624) = Finite False 0"
  "fp_lit binary32 (3 / 2854495385411919762116571938898990272765493248) = Finite False (1 / 713623846352979940529142984724747568191373312)"
  "fp_lit binary32 340282356779733661637539395458142568447 = Finite False 340282346638528859811704183484516925440"
  "fp_lit binary32 340282356779733661637539395458142568448 = Infinity False"
  by (simp_all add: fp_eval)

section \<open>The coefficient functions\<close>


lemma keep18_mask: "keep18 w = take_bit 18 w"
proof -
  have "push_bit 18 1 - 1 = (mask 18 :: 32 word)"
    by (simp add: mask_eq_exp_minus_1)
  then show ?thesis
    by (simp only: keep18_def take_bit_eq_mask)
qed

lemma keep18_le: "keep18 w \<le> 0x3FFFF"
proof -
  have "w AND 0x3FFFF \<le> (0x3FFFF :: 32 word)"
    by (rule word_and_le1)
  then show ?thesis
    by (simp add: keep18_def)
qed

text \<open>
  C4. For every bit pattern of the input float, either gain range and whatever the
  platform delivers for an invalid conversion, each of the two coefficient functions
  returns a value (the model is a total function) that lies between 0 and 0x3FFFF, and
  no bit at position 18 or above is set in it.
\<close>

theorem coef_bit_width:
  "ComputeMultCoefADC1410 g unspec x h \<le> 0x3FFFF
   \<and> ComputeAddCoefADC1410 g unspec x h \<le> 0x3FFFF
   \<and> 0 \<le> uint (ComputeMultCoefADC1410 g unspec x h)
   \<and> 0 \<le> uint (ComputeAddCoefADC1410 g unspec x h)
   \<and> drop_bit 18 (ComputeMultCoefADC1410 g unspec x h) = 0
   \<and> drop_bit 18 (ComputeAddCoefADC1410 g unspec x h) = 0"
  by (simp add: ComputeMultCoefADC1410_def ComputeAddCoefADC1410_def keep18_le)
    (simp add: keep18_mask drop_bit_take_bit)

text \<open>
  C3, as the code has it. At gain error 0.0 the multiplicative coefficient is 68813 for the
  low range, printed as \<^verbatim>\<open>0x10CCD\<close>, and 71172 for the high range, printed as
  \<^verbatim>\<open>0x11604\<close> (1.086 times 65536 is 71172.096); at offset error 0.0 the additive
  coefficient is 0, printed as \<^verbatim>\<open>0x00000\<close>, for both ranges.
\<close>

theorem known_values:
  "ComputeMultCoefADC1410 g unspec 0 False = 68813
   \<and> render_0x05X (ComputeMultCoefADC1410 g unspec 0 False) = ''0x10CCD''
   \<and> ComputeMultCoefADC1410 g unspec 0 True = 71172
   \<and> render_0x05X (ComputeMultCoefADC1410 g unspec 0 True) = ''0x11604''
   \<and> ComputeAddCoefADC1410 g unspec 0 h = 0
   \<and> render_0x05X (ComputeAddCoefADC1410 g unspec 0 h) = ''0x00000''"
  by (simp only: mult_zero_low mult_zero_high add_zero render_values simp_thms)

text \<open>
  C3 as stated fails: the high-range coefficient at gain error 0.0 is not 71197, its
  rendering is not \<^verbatim>\<open>0x115DD\<close>, and the rendering of the low-range coefficient is not
  \<^verbatim>\<open>0x10C8D\<close>.
\<close>

theorem known_values_counterexample:
  "ComputeMultCoefADC1410 g_off cvt_indefinite 0 True \<noteq> 71197
   \<and> render_0x05X (ComputeMultCoefADC1410 g_off cvt_indefinite 0 True) \<noteq> ''0x115DD''
   \<and> render_0x05X (ComputeMultCoefADC1410 g_off cvt_indefinite 0 False) \<noteq> ''0x10C8D''"
  by (simp add: mult_zero_low mult_zero_high render_values)

text \<open>
  C9. Neither coefficient function reads the global state or produces output: the result
  is a function of the two arguments (and of the platform), so two calls with the same
  arguments, made in any two global states, return the same value.
\<close>

theorem coef_deterministic:
  "ComputeMultCoefADC1410 g unspec cg h = ComputeMultCoefADC1410 g' unspec cg h
   \<and> ComputeAddCoefADC1410 g unspec ca h = ComputeAddCoefADC1410 g' unspec ca h"
  by (simp add: ComputeMultCoefADC1410_def ComputeAddCoefADC1410_def)

section \<open>Rounding ties\<close>




section \<open>Finite arguments\<close>

lemma float_of_bits_Finite:
  assumes "float_of_bits w = Finite s m"
  shows "\<exists>n k. m = of_nat n * pow2 k \<and> n < 2 ^ 24"
proof -
  define e where "e = unat (drop_bit 23 w AND 0xFF)"
  define f where "f = unat (w AND 0x7FFFFF)"
  have "w AND 0x7FFFFF \<le> 0x7FFFFF"
    by (rule word_and_le1)
  then have f: "f < 2 ^ 23"
    by (simp add: f_def word_le_nat_alt)
  have m: "m = (if e = 0 then of_nat f * pow2 (- 149) else of_nat (2 ^ 23 + f) * pow2 (int e - 150))"
    using assms unfolding float_of_bits_def Let_def e_def [symmetric] f_def [symmetric]
    by (simp split: if_splits)
  show ?thesis
  proof (cases "e = 0")
    case True
    then have "m = of_nat f * pow2 (- 149) \<and> f < 2 ^ 24"
      using m f by simp
    then show ?thesis by blast
  next
    case False
    then have "m = of_nat (2 ^ 23 + f) * pow2 (int e - 150) \<and> 2 ^ 23 + f < 2 ^ 24"
      using m f by simp
    then show ?thesis by blast
  qed
qed

lemma float_of_bits_nonneg:
  assumes "float_of_bits w = Finite s m"
  shows "0 \<le> m"
proof -
  obtain n k where "m = of_nat n * pow2 k"
    using float_of_bits_Finite [OF assms] by blast
  then show ?thesis
    using pow2_pos [of k] by simp
qed

text \<open>The binary32 magnitudes below a binary32 magnitude stay one quantum away from it.\<close>

lemma float_pred:
  assumes m: "m = of_nat n * pow2 k" and n: "n < 2 ^ 24"
    and lt: "m < of_nat N * pow2 K" and N: "2 ^ 23 < N"
  shows "m \<le> of_nat (N - 1) * pow2 K"
proof (cases "K \<le> k")
  case True
  define j where "j = nat (k - K)"
  have "pow2 k = pow2 (int j) * pow2 K"
    using True by (simp add: j_def pow2_add [symmetric])
  then have m': "m = of_nat (n * 2 ^ j) * pow2 K"
    using m by (simp add: pow2_int)
  then have "(of_nat (n * 2 ^ j) :: rat) < of_nat N"
    using lt pow2_pos [of K] by simp
  then have "n * 2 ^ j < N"
    by (simp only: of_nat_less_iff)
  then have "n * 2 ^ j \<le> N - 1"
    by simp
  then have "(of_nat (n * 2 ^ j) :: rat) \<le> of_nat (N - 1)"
    by (simp only: of_nat_le_iff)
  then show ?thesis
    using m' pow2_pos [of K] by simp
next
  case False
  then have "pow2 k \<le> pow2 (K - 1)"
    by (intro pow2_mono) simp
  also have "\<dots> = pow2 K / 2"
    by (simp add: pow2_diff pow2_def [of 1])
  finally have k: "pow2 k \<le> pow2 K / 2" .
  have "n \<le> 2 ^ 24"
    using n by simp
  then have "(of_nat n :: rat) \<le> of_nat (2 ^ 24)"
    by (simp only: of_nat_le_iff)
  then have "m \<le> of_nat (2 ^ 24) * pow2 k"
    using m pow2_pos [of k] by simp
  also have "\<dots> \<le> of_nat (2 ^ 24) * (pow2 K / 2)"
    using k by simp
  also have "\<dots> = of_nat (2 ^ 23) * pow2 K"
    by simp
  also have "\<dots> \<le> of_nat (N - 1) * pow2 K"
  proof -
    have "2 ^ 23 \<le> N - 1"
      using N by simp
    then have "(of_nat (2 ^ 23) :: rat) \<le> of_nat (N - 1)"
      by (simp only: of_nat_le_iff)
    then show ?thesis
      using pow2_pos [of K] by simp
  qed
  finally show ?thesis .
qed

text \<open>Rounding a magnitude bounded by a power of two of the format does not overflow.\<close>

lemma rnd_le_pow2:
  assumes "0 \<le> m" and "m \<le> pow2 k" and "em \<le> k" and "1 \<le> p"
  shows "rnd p em m \<le> pow2 k"
proof -
  have "rnd p em m \<le> rnd p em (pow2 k)"
    using assms(1,2,4) by (rule rnd_mono)
  also have "rnd p em (of_int 1 * pow2 k) = of_int 1 * pow2 k"
    using assms(3,4) by (intro rnd_exact) simp_all
  then have "rnd p em (pow2 k) = pow2 k"
    by simp
  finally show ?thesis .
qed

lemma fp_round_le_pow2:
  assumes "0 \<le> m" and "m \<le> pow2 k" and "emin fmt \<le> k" and "k \<le> emax fmt"
    and "1 \<le> prec fmt"
  shows "fp_round fmt s m = Finite s (rnd (prec fmt) (emin fmt) m)"
proof -
  have "rnd (prec fmt) (emin fmt) m \<le> pow2 k"
    using assms(1,2,3,5) by (rule rnd_le_pow2)
  also have "\<dots> < pow2 (emax fmt + 1)"
    using assms(4) by (intro pow2_strict_mono) simp
  finally show ?thesis
    by (simp add: fp_round_def)
qed

lemmas r64_le = rnd_le_pow2 [where p = 53 and em = "- 1022"]
lemmas r32_le = rnd_le_pow2 [where p = 24 and em = "- 126"]
lemmas fp64_le = fp_round_le_pow2 [where fmt = binary64, unfolded format_simps]
lemmas fp32_le = fp_round_le_pow2 [where fmt = binary32, unfolded format_simps]

lemma float_2_17: "fp_of_int binary32 131072 = Finite False 131072"
  by (simp add: fp_eval)

lemma float_2_16: "fp_of_int binary32 65536 = Finite False 65536"
  by (simp add: fp_eval)

lemma float_1: "fp_of_int binary32 1 = Finite False 1"
  by (simp add: fp_eval)

lemma pow2_values: "pow2 13 = 8192" "pow2 17 = 131072" "pow2 30 = 1073741824"
  "pow2 12 = 4096" "pow2 16 = 65536" "pow2 29 = 536870912" "pow2 0 = 1" "pow2 1 = 2"
  "pow2 15 = 32768" "pow2 19 = 524288" "pow2 32 = 4294967296" "pow2 36 = 68719476736"
  by (simp_all add: pow2_def)

lemma AddCoef_fval_Finite:
  assumes "float_of_bits ca = Finite s m" and "m \<le> 524288"
  shows "AddCoef_fval ca h = Finite s (rnd 24 (- 126)
    (rnd 53 (- 1022) (rnd 53 (- 1022) (m / (if h then 1 else 25)) * 131072)))"
    and "rnd 24 (- 126)
    (rnd 53 (- 1022) (rnd 53 (- 1022) (m / (if h then 1 else 25)) * 131072)) \<le> pow2 36"
proof -
  define d :: rat where "d = (if h then 1 else 25)"
  have d: "1 \<le> d" "d \<noteq> 0"
    by (simp_all add: d_def)
  have m0: "0 \<le> m"
    using assms(1) by (rule float_of_bits_nonneg)
  define x1 where "x1 = m / d"
  have x1: "0 \<le> x1" "x1 \<le> pow2 19"
  proof -
    show "0 \<le> x1"
      using m0 d(1) by (simp add: x1_def)
    have "m / d \<le> m / 1"
      using m0 d(1) by (intro divide_left_mono) simp_all
    then show "x1 \<le> pow2 19"
      using assms(2) by (simp add: x1_def pow2_values)
  qed
  define y1 where "y1 = rnd 53 (- 1022) x1"
  have y1: "0 \<le> y1" "y1 \<le> pow2 19"
    using x1 by (simp_all add: y1_def rnd_nonneg r64_le)
  have s1: "fp_round binary64 s x1 = Finite s y1"
    using x1 unfolding y1_def by (intro fp64_le [where k = 19]) simp_all
  define x2 where "x2 = y1 * 131072"
  have x2: "0 \<le> x2" "x2 \<le> pow2 36"
    using y1 by (simp_all add: x2_def pow2_values)
  define y2 where "y2 = rnd 53 (- 1022) x2"
  have y2: "0 \<le> y2" "y2 \<le> pow2 36"
    using x2 by (simp_all add: y2_def rnd_nonneg r64_le)
  have s2: "fp_round binary64 s x2 = Finite s y2"
    using x2 unfolding y2_def by (intro fp64_le [where k = 36]) simp_all
  have s3: "fp_round binary32 s y2 = Finite s (rnd 24 (- 126) y2)"
    using y2 by (intro fp32_le [where k = 36]) simp_all
  have "AddCoef_fval ca h
      = fp_cvt binary32 (fp_mul binary64 (fp_div binary64 (Finite s m) (Finite False d))
          (Finite False 131072))"
    by (simp add: AddCoef_fval_def assms(1) ideal_high ideal_low float_2_17 d_def)
  also have "fp_div binary64 (Finite s m) (Finite False d) = Finite s y1"
    using d(2) s1 by (simp add: x1_def)
  also have "fp_mul binary64 (Finite s y1) (Finite False 131072) = Finite s y2"
    using s2 by (simp add: x2_def)
  also have "fp_cvt binary32 (Finite s y2) = Finite s (rnd 24 (- 126) y2)"
    using s3 by simp
  finally show "AddCoef_fval ca h = Finite s (rnd 24 (- 126)
    (rnd 53 (- 1022) (rnd 53 (- 1022) (m / (if h then 1 else 25)) * 131072)))"
    by (simp only: y2_def x2_def y1_def x1_def d_def)
  show "rnd 24 (- 126)
    (rnd 53 (- 1022) (rnd 53 (- 1022) (m / (if h then 1 else 25)) * 131072)) \<le> pow2 36"
    using y2 r32_le [of y2 36] by (simp add: y2_def x2_def y1_def x1_def d_def)
qed

section \<open>Negative offsets\<close>

lemma round_ival_small:
  assumes "0 \<le> M" and "M \<le> 12582911 / 8388608"
  shows "round_ival unspec (Finite True M) = 0"
proof -
  define v where "v = - M + 1 / 2"
  have "fp_add binary64 (Finite True M) (Finite False (1 / 2))
      = (if v = 0 then Finite False 0 else fp_round binary64 (v < 0) \<bar>v\<bar>)"
    by (simp add: fp_val_def v_def Let_def)
  then have sum: "round_ival unspec (Finite True M)
      = fp_to_int32 unspec (if v = 0 then Finite False 0 else fp_round binary64 (v < 0) \<bar>v\<bar>)"
    by (simp only: round_ival_def lit_half)
  show ?thesis
  proof (cases "v = 0")
    case True
    then show ?thesis
      by (simp add: sum fp_to_int32_def)
  next
    case False
    have v: "0 \<le> \<bar>v\<bar>" "\<bar>v\<bar> \<le> 8388607 / 8388608"
      using assms unfolding v_def by linarith+
    define a where "a = rnd 53 (- 1022) \<bar>v\<bar>"
    have "a \<le> rnd 53 (- 1022) (8388607 / 8388608)"
      unfolding a_def using v by (intro rnd_mono) simp_all
    also have "\<dots> = 8388607 / 8388608"
      by (simp add: rnd_eval)
    finally have a: "0 \<le> a" "a < 1"
      using v(1) by (simp_all add: a_def rnd_nonneg)
    then have fl: "\<lfloor>a\<rfloor> = 0"
      by (simp add: floor_eq_iff)
    have "\<bar>v\<bar> \<le> pow2 0"
      using v(2) by (simp add: pow2_values)
    then have "fp_round binary64 (v < 0) \<bar>v\<bar> = Finite (v < 0) a"
      unfolding a_def using v(1) by (intro fp64_le [where k = 0]) simp_all
    then show ?thesis
      using False fl by (simp add: sum fp_to_int32_def)
  qed
qed

lemma add_chain_high: "rnd 24 (- 126) (rnd 53 (- 1022)
    (rnd 53 (- 1022) (12582911 / 1099511627776 / 1) * 131072)) = 12582911 / 8388608"
  by (simp add: rnd_eval)

lemma add_chain_low: "rnd 24 (- 126) (rnd 53 (- 1022)
    (rnd 53 (- 1022) (9830399 / 34359738368 / 25) * 131072)) = 12582911 / 8388608"
  by (simp add: rnd_eval)

lemma add_chain_mono:
  assumes "0 \<le> m" and "m \<le> m'" and "0 < d"
  shows "rnd 24 (- 126) (rnd 53 (- 1022) (rnd 53 (- 1022) (m / d) * 131072))
    \<le> rnd 24 (- 126) (rnd 53 (- 1022) (rnd 53 (- 1022) (m' / d) * 131072))"
proof -
  have 1: "0 \<le> m / d" "m / d \<le> m' / d"
    using assms by (simp_all add: divide_right_mono)
  then have 2: "rnd 53 (- 1022) (m / d) \<le> rnd 53 (- 1022) (m' / d)"
    by (intro rnd_mono) simp_all
  have 3: "0 \<le> rnd 53 (- 1022) (m / d) * 131072"
    using 1(1) by (simp add: rnd_nonneg)
  have 4: "rnd 53 (- 1022) (rnd 53 (- 1022) (m / d) * 131072)
      \<le> rnd 53 (- 1022) (rnd 53 (- 1022) (m' / d) * 131072)"
    using 2 3 by (intro rnd_mono) simp_all
  have 5: "0 \<le> rnd 53 (- 1022) (rnd 53 (- 1022) (m / d) * 131072)"
    using 3 by (rule rnd_nonneg)
  show ?thesis
    using 5 4 by (rule rnd_mono) simp
qed

lemma negative_offset_zero:
  assumes fb: "float_of_bits ca = Finite s m"
    and lo: "- (3 / 2) < fp_val s m / (if fHighGain then 1 else 25) * 2 ^ 17"
    and hi: "fp_val s m / (if fHighGain then 1 else 25) * 2 ^ 17 < 0"
  shows "ComputeAddCoefADC1410 g unspec ca fHighGain = 0"
proof -
  define d :: rat where "d = (if fHighGain then 1 else 25)"
  have d: "0 < d" "d \<le> 25"
    by (simp_all add: d_def)
  have m0: "0 \<le> m"
    using fb by (rule float_of_bits_nonneg)
  have neg: "fp_val s m < 0"
    using hi d(1) unfolding d_def [symmetric] by (simp add: divide_less_0_iff mult_less_0_iff)
  then have s: "s"
    using m0 by (cases s) (simp_all add: fp_val_def)
  have "m / d * 131072 < 3 / 2"
    using lo s unfolding d_def [symmetric] by (simp add: fp_val_def)
  then have mlt: "m < 3 * d / 262144"
    using d(1) by (simp add: field_simps)
  obtain n k where nk: "m = of_nat n * pow2 k" "n < 2 ^ 24"
    using float_of_bits_Finite [OF fb] by blast
  define pm :: rat where
    "pm = (if fHighGain then 12582911 / 1099511627776 else 9830399 / 34359738368)"
  have pm: "m \<le> pm"
  proof (cases fHighGain)
    case True
    then have "m < of_nat 12582912 * pow2 (- 40)"
      using mlt by (simp add: d_def pow2_def)
    then have "m \<le> of_nat (12582912 - 1) * pow2 (- 40)"
      using nk by (intro float_pred [where n = n and k = k]) simp_all
    then show ?thesis
      using True by (simp add: pm_def pow2_def)
  next
    case False
    then have "m < of_nat 9830400 * pow2 (- 35)"
      using mlt by (simp add: d_def pow2_def)
    then have "m \<le> of_nat (9830400 - 1) * pow2 (- 35)"
      using nk by (intro float_pred [where n = n and k = k]) simp_all
    then show ?thesis
      using False by (simp add: pm_def pow2_def)
  qed
  then have m8: "m \<le> 524288"
    by (simp add: pm_def split: if_splits)
  define M where "M = rnd 24 (- 126) (rnd 53 (- 1022) (rnd 53 (- 1022) (m / d) * 131072))"
  have fval: "AddCoef_fval ca fHighGain = Finite True M"
    using AddCoef_fval_Finite(1) [OF fb m8, of fHighGain] s by (simp add: M_def d_def)
  have "M \<le> rnd 24 (- 126) (rnd 53 (- 1022) (rnd 53 (- 1022) (pm / d) * 131072))"
    unfolding M_def using m0 pm d(1) by (rule add_chain_mono)
  also have "\<dots> = 12582911 / 8388608"
    using add_chain_high add_chain_low by (simp add: pm_def d_def)
  finally have M: "M \<le> 12582911 / 8388608" .
  have "0 \<le> M"
    unfolding M_def using m0 d(1) by (intro rnd_nonneg mult_nonneg_nonneg) simp_all
  then have "round_ival unspec (Finite True M) = 0"
    using M by (rule round_ival_small)
  then show ?thesis
    by (simp add: ComputeAddCoefADC1410_def fval keep18_def)
qed

lemma bits_minus_2_m17: "float_of_bits 0xB7000000 = Finite True (1 / 131072)"
  by (simp add: float_of_bits_def fp_eval bit_iff_odd)

section \<open>The formulas of the specification\<close>

lemma round_to_val:
  assumes "0 \<le> a"
  shows "round_to fmt (fp_val s a) = fp_val s (rnd (prec fmt) (emin fmt) a)"
proof (cases "a = 0")
  case True
  then show ?thesis
    by (simp add: round_to_def fp_val_def rnd_zero)
next
  case False
  then have "0 < a"
    using assms by simp
  then show ?thesis
    by (simp add: round_to_def fp_val_def)
qed

lemma round_to_abs: "round_to fmt v = fp_val (v < 0) (rnd (prec fmt) (emin fmt) \<bar>v\<bar>)"
  by (simp add: round_to_def fp_val_def)


lemma to_double_abs: "to_double v = fp_val (v < 0) (rnd 53 (- 1022) \<bar>v\<bar>)"
  by (simp add: to_double_def round_to_abs format_simps)

lemma to_float_abs: "to_float v = fp_val (v < 0) (rnd 24 (- 126) \<bar>v\<bar>)"
  by (simp add: to_float_def round_to_abs format_simps)

lemma trunc_rat_val: "0 \<le> a \<Longrightarrow> trunc_rat (fp_val s a) = (if s then - \<lfloor>a\<rfloor> else \<lfloor>a\<rfloor>)"
  by (cases "a = 0") (simp_all add: trunc_rat_def fp_val_def)

lemma keep18_and: "keep18 w = w AND 0x3FFFF"
  by (simp add: keep18_def)

subsection \<open>The additive coefficient\<close>

lemma to_double_consts: "to_double 1 = 1" "to_double 25 = 25"
  "to_double (to_double (1086 / 1000) / to_double 1) = 4890909195324359 / 4503599627370496"
  "to_double (to_double (2625 / 100) / to_double 25) = 4728779608739021 / 4503599627370496"
  by (simp_all add: to_double_def round_to_def format_simps rnd_eval)

subsection \<open>The multiplicative coefficient\<close>

lemma ratio_eval:
  "(if h then fp_div binary64 ADC1410_REAL_RANGE_ADC_HIGH ADC1410_IDEAL_RANGE_ADC_HIGH
    else fp_div binary64 ADC1410_REAL_RANGE_ADC_LOW ADC1410_IDEAL_RANGE_ADC_LOW)
   = Finite False (if h then 4890909195324359 / 4503599627370496
       else 4728779608739021 / 4503599627370496)"
  by (simp add: const_eval fp_eval)

lemma MultCoef_fval_Finite:
  assumes "float_of_bits cg = Finite s m" and "m \<le> 32767"
  shows "MultCoef_fval cg h = Finite (1 + fp_val s m < 0) (rnd 24 (- 126)
      (rnd 53 (- 1022) (rnd 53 (- 1022)
        ((if h then 4890909195324359 / 4503599627370496
          else 4728779608739021 / 4503599627370496)
         * rnd 24 (- 126) \<bar>1 + fp_val s m\<bar>) * 65536)))"
    and "rnd 24 (- 126)
      (rnd 53 (- 1022) (rnd 53 (- 1022)
        ((if h then 4890909195324359 / 4503599627370496
          else 4728779608739021 / 4503599627370496)
         * rnd 24 (- 126) \<bar>1 + fp_val s m\<bar>) * 65536)) \<le> pow2 33"
proof -
  define R :: rat where "R = (if h then 4890909195324359 / 4503599627370496
    else 4728779608739021 / 4503599627370496)"
  have R: "0 \<le> R" "R \<le> 2"
    by (simp_all add: R_def)
  have m0: "0 \<le> m"
    using assms(1) by (rule float_of_bits_nonneg)
  define v where "v = 1 + fp_val s m"
  have "\<bar>fp_val s m\<bar> = m"
    using m0 by (simp add: fp_val_def)
  then have v: "0 \<le> \<bar>v\<bar>" "\<bar>v\<bar> \<le> pow2 15"
    using assms(2) unfolding v_def pow2_values by linarith+
  define a where "a = rnd 24 (- 126) \<bar>v\<bar>"
  have a: "0 \<le> a" "a \<le> pow2 15"
    using v by (simp_all add: a_def rnd_nonneg r32_le)
  have "fp_val False 1 + fp_val s m = v"
    by (simp add: v_def fp_val_def)
  then have sum: "fp_add binary32 (Finite False 1) (Finite s m)
      = (if v = 0 then Finite False 0 else fp_round binary32 (v < 0) \<bar>v\<bar>)"
    by (simp only: fp_add.simps Let_def simp_thms)
  have s0: "fp_add binary32 (Finite False 1) (Finite s m) = Finite (v < 0) a"
  proof (cases "v = 0")
    case True
    then show ?thesis
      unfolding sum by (simp add: a_def rnd_zero)
  next
    case False
    have "fp_round binary32 (v < 0) \<bar>v\<bar> = Finite (v < 0) a"
      unfolding a_def using v by (intro fp32_le [where k = 15]) simp_all
    then show ?thesis
      using False unfolding sum by simp
  qed
  define x1 where "x1 = R * a"
  have x1: "0 \<le> x1" "x1 \<le> pow2 16"
  proof -
    show "0 \<le> x1"
      using R(1) a(1) by (simp add: x1_def)
    have "R * a \<le> 2 * a"
      using R(2) a(1) by (intro mult_right_mono) simp_all
    then show "x1 \<le> pow2 16"
      using a(2) by (simp add: x1_def pow2_values)
  qed
  define y1 where "y1 = rnd 53 (- 1022) x1"
  have y1: "0 \<le> y1" "y1 \<le> pow2 16"
    using x1 by (simp_all add: y1_def rnd_nonneg r64_le)
  have s1: "fp_round binary64 (v < 0) x1 = Finite (v < 0) y1"
    using x1 unfolding y1_def by (intro fp64_le [where k = 16]) simp_all
  define x2 where "x2 = y1 * 65536"
  have x2: "0 \<le> x2" "x2 \<le> pow2 32"
    using y1 by (simp_all add: x2_def pow2_values)
  define y2 where "y2 = rnd 53 (- 1022) x2"
  have y2: "0 \<le> y2" "y2 \<le> pow2 32"
    using x2 by (simp_all add: y2_def rnd_nonneg r64_le)
  have s2: "fp_round binary64 (v < 0) x2 = Finite (v < 0) y2"
    using x2 unfolding y2_def by (intro fp64_le [where k = 32]) simp_all
  have s3: "fp_round binary32 (v < 0) y2 = Finite (v < 0) (rnd 24 (- 126) y2)"
    using y2 by (intro fp32_le [where k = 32]) simp_all
  have "MultCoef_fval cg h
      = fp_cvt binary32 (fp_mul binary64 (fp_mul binary64 (Finite False R)
          (fp_add binary32 (Finite False 1) (Finite s m))) (Finite False 65536))"
    unfolding MultCoef_fval_def ratio_eval R_def [symmetric]
    by (simp add: assms(1) float_1 float_2_16)
  also have "fp_mul binary64 (Finite False R) (fp_add binary32 (Finite False 1) (Finite s m))
      = Finite (v < 0) y1"
    using s1 unfolding s0 by (simp add: x1_def)
  also have "fp_mul binary64 (Finite (v < 0) y1) (Finite False 65536) = Finite (v < 0) y2"
    using s2 by (simp add: x2_def)
  also have "fp_cvt binary32 (Finite (v < 0) y2) = Finite (v < 0) (rnd 24 (- 126) y2)"
    using s3 by simp
  finally show "MultCoef_fval cg h = Finite (1 + fp_val s m < 0) (rnd 24 (- 126)
      (rnd 53 (- 1022) (rnd 53 (- 1022)
        ((if h then 4890909195324359 / 4503599627370496
          else 4728779608739021 / 4503599627370496)
         * rnd 24 (- 126) \<bar>1 + fp_val s m\<bar>) * 65536)))"
    by (simp only: y2_def x2_def y1_def x1_def a_def v_def R_def)
  have "rnd 24 (- 126) y2 \<le> pow2 32"
    using y2 by (intro r32_le) simp_all
  also have "\<dots> \<le> pow2 33"
    by (rule pow2_mono) simp
  finally show "rnd 24 (- 126)
      (rnd 53 (- 1022) (rnd 53 (- 1022)
        ((if h then 4890909195324359 / 4503599627370496
          else 4728779608739021 / 4503599627370496)
         * rnd 24 (- 126) \<bar>1 + fp_val s m\<bar>) * 65536)) \<le> pow2 33"
    by (simp only: y2_def x2_def y1_def x1_def a_def v_def R_def)
qed

subsection \<open>Concrete evaluations\<close>

lemma bits_gain_tie: "float_of_bits 0x372A0000 = Finite False (85 / 8388608)"
  by (simp add: float_of_bits_def fp_eval bit_iff_odd)

lemma mult_fval_gain_tie: "MultCoef_fval 0x372A0000 False = Finite False (137627 / 2)"
  by (simp add: MultCoef_fval_def const_eval float_of_bits_def fp_eval bit_iff_odd)

lemma mult_gain_tie: "ComputeMultCoefADC1410 g unspec 0x372A0000 False = 68814"
  by (simp add: ComputeMultCoefADC1410_def mult_fval_gain_tie ival_eval)

lemma spec_mult_gain_tie: "spec_MultCoef (85 / 8388608) False = 68813"
  by (simp add: spec_MultCoef_def trunc_rat_def floor_rat_numeral)

lemma rounded_mult_gain_tie: "rounded_MultCoef (85 / 8388608) False = 68814"
  by (simp add: rounded_MultCoef_def to_float_def to_double_def round_to_def format_simps
      rnd_eval trunc_rat_def)

lemma bits_flt_max:
  "float_of_bits 0x7F7FFFFF = Finite False 340282346638528859811704183484516925440"
  by (simp add: float_of_bits_def fp_eval bit_iff_odd)

lemma mult_fval_flt_max: "MultCoef_fval 0x7F7FFFFF False = Infinity False"
  by (simp add: MultCoef_fval_def const_eval float_of_bits_def fp_eval bit_iff_odd)

lemma mult_flt_max: "ComputeMultCoefADC1410 g cvt_indefinite 0x7F7FFFFF False = 0"
  by (simp add: ComputeMultCoefADC1410_def mult_fval_flt_max round_ival_def lit_half
      fp_to_int32_def cvt_indefinite_def keep18_def)

lemma spec_mult_flt_max:
  "spec_MultCoef 340282346638528859811704183484516925440 False = 68813"
  by (simp add: spec_MultCoef_def trunc_rat_def floor_rat_numeral)

lemma bits_offset_100: "float_of_bits 0x42C8000C = Finite False (3276803 / 32768)"
  by (simp add: float_of_bits_def fp_eval bit_iff_odd)

lemma add_fval_offset_100: "AddCoef_fval 0x42C8000C False = Finite False (1048577 / 2)"
  by (simp add: AddCoef_fval_def const_eval float_of_bits_def fp_eval bit_iff_odd)

lemma add_offset_100: "ComputeAddCoefADC1410 g unspec 0x42C8000C False = 1"
  by (simp add: ComputeAddCoefADC1410_def add_fval_offset_100 ival_eval)

lemma spec_add_offset_100: "spec_AddCoef (3276803 / 32768) False = 0"
  by (simp add: spec_AddCoef_def trunc_rat_def floor_rat_numeral)

lemma rounded_add_offset_100: "rounded_AddCoef (3276803 / 32768) False = 1"
  by (simp add: rounded_AddCoef_def to_float_def to_double_def round_to_def format_simps
      rnd_eval trunc_rat_def)

section \<open>Finite results\<close>

lemma fp_wf_round: "0 \<le> m \<Longrightarrow> fp_wf (fp_round fmt s m)"
  by (simp add: fp_round_def Let_def rnd_nonneg)

lemma fp_value_round:
  assumes "0 \<le> m" and "fp_finite (fp_round fmt s m)"
  shows "fp_value (fp_round fmt s m) = round_to fmt (fp_val s m)"
proof -
  have "fp_round fmt s m = Finite s (rnd (prec fmt) (emin fmt) m)"
    using assms(2) by (simp add: fp_round_def Let_def split: if_splits)
  then show ?thesis
    using assms(1) by (simp add: round_to_val)
qed

lemma fp_wf_float_of_bits: "fp_wf (float_of_bits w)"
proof (cases "float_of_bits w")
  case (Finite s m)
  then show ?thesis
    using float_of_bits_nonneg [of w s m] by simp
qed simp_all

lemma fp_wf_add: "fp_wf x \<Longrightarrow> fp_wf y \<Longrightarrow> fp_wf (fp_add fmt x y)"
  by (cases x; cases y) (simp_all add: Let_def fp_wf_round)

lemma fp_finite_add: "fp_finite (fp_add fmt x y) \<Longrightarrow> fp_finite x \<and> fp_finite y"
  by (cases x; cases y) (simp_all split: if_splits)

lemma fp_value_add:
  assumes "fp_finite (fp_add fmt x y)"
  shows "fp_value (fp_add fmt x y) = round_to fmt (fp_value x + fp_value y)"
proof -
  obtain s a t b where x: "x = Finite s a" and y: "y = Finite t b"
    using fp_finite_add [OF assms] by (cases x; cases y) simp_all
  define v where "v = fp_val s a + fp_val t b"
  have sum: "fp_add fmt x y = (if v = 0 then Finite (s \<and> t) 0 else fp_round fmt (v < 0) \<bar>v\<bar>)"
    by (simp only: x y fp_add.simps Let_def v_def)
  show ?thesis
  proof (cases "v = 0")
    case True
    have "fp_value x + fp_value y = v"
      by (simp only: x y fp_value.simps v_def)
    then have "round_to fmt (fp_value x + fp_value y) = 0"
      unfolding True by (simp add: round_to_def rnd_zero)
    moreover have "fp_value (fp_add fmt x y) = 0"
      unfolding sum using True by (simp add: fp_val_def)
    ultimately show ?thesis
      by simp
  next
    case False
    then have "fp_finite (fp_round fmt (v < 0) \<bar>v\<bar>)"
      using assms unfolding sum by simp
    then have "fp_value (fp_round fmt (v < 0) \<bar>v\<bar>) = round_to fmt (fp_val (v < 0) \<bar>v\<bar>)"
      by (intro fp_value_round) simp_all
    also have "fp_val (v < 0) \<bar>v\<bar> = v"
      by (simp add: fp_val_def)
    finally show ?thesis
      using False unfolding sum by (simp add: x y v_def)
  qed
qed

lemma fp_val_times: "fp_val s a * fp_val t b = fp_val (s \<noteq> t) (a * b)"
  by (simp add: fp_val_def)

lemma fp_wf_mul: "fp_wf x \<Longrightarrow> fp_wf y \<Longrightarrow> fp_wf (fp_mul fmt x y)"
  by (cases x; cases y) (simp_all add: fp_wf_round)

lemma fp_finite_mul: "fp_finite (fp_mul fmt x y) \<Longrightarrow> fp_finite x \<and> fp_finite y"
  by (cases x; cases y) (simp_all split: if_splits)

lemma fp_value_mul:
  assumes "fp_wf x" and "fp_wf y" and "fp_finite (fp_mul fmt x y)"
  shows "fp_value (fp_mul fmt x y) = round_to fmt (fp_value x * fp_value y)"
proof -
  obtain s a t b where x: "x = Finite s a" and y: "y = Finite t b"
    using fp_finite_mul [OF assms(3)] by (cases x; cases y) simp_all
  have ab: "0 \<le> a * b"
    using assms(1,2) by (simp add: x y)
  have "fp_finite (fp_round fmt (s \<noteq> t) (a * b))"
    using assms(3) by (simp add: x y)
  then have "fp_value (fp_round fmt (s \<noteq> t) (a * b)) = round_to fmt (fp_val (s \<noteq> t) (a * b))"
    using ab by (intro fp_value_round)
  then show ?thesis
    by (simp add: x y fp_val_times)
qed

lemma fp_wf_div: "fp_wf x \<Longrightarrow> fp_wf y \<Longrightarrow> fp_wf (fp_div fmt x y)"
  by (cases x; cases y) (simp_all add: fp_wf_round)

lemma fp_finite_div:
  "fp_finite (fp_div fmt x (Finite t d)) \<Longrightarrow> fp_finite x"
  by (cases x) (simp_all split: if_splits)

lemma fp_value_div:
  assumes "fp_wf x" and "0 < d" and "fp_finite (fp_div fmt x (Finite t d))"
  shows "fp_value (fp_div fmt x (Finite t d)) = round_to fmt (fp_value x / fp_val t d)"
proof -
  obtain s a where x: "x = Finite s a"
    using fp_finite_div [OF assms(3)] by (cases x) simp_all
  have ab: "0 \<le> a / d"
    using assms(1,2) by (simp add: x)
  have "fp_finite (fp_round fmt (s \<noteq> t) (a / d))"
    using assms(2,3) by (simp add: x)
  then have "fp_value (fp_round fmt (s \<noteq> t) (a / d)) = round_to fmt (fp_val (s \<noteq> t) (a / d))"
    using ab by (intro fp_value_round)
  moreover have "fp_val s a / fp_val t d = fp_val (s \<noteq> t) (a / d)"
    by (simp add: fp_val_def)
  ultimately show ?thesis
    using assms(2) by (simp add: x)
qed

lemma fp_wf_cvt: "fp_wf x \<Longrightarrow> fp_wf (fp_cvt fmt x)"
  by (cases x) (simp_all add: fp_wf_round)

lemma fp_finite_cvt: "fp_finite (fp_cvt fmt x) \<Longrightarrow> fp_finite x"
  by (cases x) simp_all

lemma fp_value_cvt:
  assumes "fp_wf x" and "fp_finite (fp_cvt fmt x)"
  shows "fp_value (fp_cvt fmt x) = round_to fmt (fp_value x)"
proof -
  obtain s a where x: "x = Finite s a"
    using fp_finite_cvt [OF assms(2)] by (cases x) simp_all
  have "fp_finite (fp_round fmt s a)"
    using assms(2) by (simp add: x)
  then have "fp_value (fp_round fmt s a) = round_to fmt (fp_val s a)"
    using assms(1) by (intro fp_value_round) (simp add: x)
  then show ?thesis
    by (simp add: x)
qed

lemma in_int32_range_finite: "in_int32_range x \<Longrightarrow> fp_finite x"
  by (cases x) (simp_all add: in_int32_range_def)

lemma fp_to_int32_value:
  assumes "fp_wf x" and "in_int32_range x"
  shows "fp_to_int32 unspec x = word_of_int (trunc_rat (fp_value x))"
    and "- (2 ^ 31) \<le> trunc_rat (fp_value x)" and "trunc_rat (fp_value x) < 2 ^ 31"
proof -
  obtain s a where x: "x = Finite s a"
    using in_int32_range_finite [OF assms(2)] by (cases x) simp_all
  have a: "0 \<le> a"
    using assms(1) by (simp add: x)
  define t where "t = (if s then - \<lfloor>a\<rfloor> else \<lfloor>a\<rfloor>)"
  have t: "- (2 ^ 31) \<le> t" "t < 2 ^ 31"
    using assms(2) by (simp_all add: x in_int32_range_def Let_def t_def [symmetric])
  have tv: "trunc_rat (fp_value x) = t"
    using a by (simp only: x fp_value.simps trunc_rat_val t_def)
  have "fp_to_int32 unspec x = word_of_int t"
    using t by (simp add: x fp_to_int32_def Let_def t_def [symmetric])
  then show "fp_to_int32 unspec x = word_of_int (trunc_rat (fp_value x))"
    by (simp only: tv)
  show "- (2 ^ 31) \<le> trunc_rat (fp_value x)" and "trunc_rat (fp_value x) < 2 ^ 31"
    using t by (simp_all only: tv)
qed

section \<open>The stored value\<close>

lemma MultCoef_fval_product: "MultCoef_fval cg h = fp_cvt binary32 (MultCoef_product cg h)"
  by (simp only: MultCoef_fval_def MultCoef_product_def)

lemma ratio_value:
  "fp_value (if h then fp_div binary64 ADC1410_REAL_RANGE_ADC_HIGH ADC1410_IDEAL_RANGE_ADC_HIGH
    else fp_div binary64 ADC1410_REAL_RANGE_ADC_LOW ADC1410_IDEAL_RANGE_ADC_LOW)
   = (if h then to_double (to_double (1086 / 1000) / to_double 1)
      else to_double (to_double (2625 / 100) / to_double 25))"
  "fp_wf (if h then fp_div binary64 ADC1410_REAL_RANGE_ADC_HIGH ADC1410_IDEAL_RANGE_ADC_HIGH
    else fp_div binary64 ADC1410_REAL_RANGE_ADC_LOW ADC1410_IDEAL_RANGE_ADC_LOW)"
proof -
  let ?R = "if h then fp_div binary64 ADC1410_REAL_RANGE_ADC_HIGH ADC1410_IDEAL_RANGE_ADC_HIGH
    else fp_div binary64 ADC1410_REAL_RANGE_ADC_LOW ADC1410_IDEAL_RANGE_ADC_LOW"
  have "fp_value ?R = (if h then 4890909195324359 / 4503599627370496
      else 4728779608739021 / 4503599627370496)"
    unfolding ratio_eval by (simp add: fp_val_def)
  also have "\<dots> = (if h then to_double (to_double (1086 / 1000) / to_double 1)
      else to_double (to_double (2625 / 100) / to_double 25))"
    unfolding to_double_consts(3,4) by (rule refl)
  finally show "fp_value ?R = (if h then to_double (to_double (1086 / 1000) / to_double 1)
      else to_double (to_double (2625 / 100) / to_double 25))" .
  show "fp_wf ?R"
    unfolding ratio_eval by simp
qed

lemma MultCoef_product_value:
  assumes "fp_finite (MultCoef_product cg h)"
  shows "fp_finite (float_of_bits cg)"
    and "fp_wf (MultCoef_product cg h)"
    and "fp_value (MultCoef_product cg h)
      = to_double (to_double ((if h then to_double (to_double (1086 / 1000) / to_double 1)
            else to_double (to_double (2625 / 100) / to_double 25))
          * to_float (1 + fp_value (float_of_bits cg))) * 2 ^ 16)"
proof -
  define R where "R = (if h
    then fp_div binary64 ADC1410_REAL_RANGE_ADC_HIGH ADC1410_IDEAL_RANGE_ADC_HIGH
    else fp_div binary64 ADC1410_REAL_RANGE_ADC_LOW ADC1410_IDEAL_RANGE_ADC_LOW)"
  define a where "a = fp_add binary32 (fp_of_int binary32 1) (float_of_bits cg)"
  define y where "y = fp_mul binary64 R a"
  have P: "MultCoef_product cg h = fp_mul binary64 y (Finite False 65536)"
    by (simp add: MultCoef_product_def y_def a_def R_def float_2_16)
  have wR: "fp_wf R"
    unfolding R_def by (rule ratio_value)
  have wa: "fp_wf a"
    unfolding a_def by (intro fp_wf_add fp_wf_float_of_bits) (simp add: float_1)
  have wy: "fp_wf y"
    unfolding y_def using wR wa by (rule fp_wf_mul)
  have w16: "fp_wf (Finite False 65536)"
    by simp
  show "fp_wf (MultCoef_product cg h)"
    unfolding P using wy w16 by (rule fp_wf_mul)
  have fy: "fp_finite y"
    using assms fp_finite_mul unfolding P by blast
  then have fa: "fp_finite a"
    using fp_finite_mul unfolding y_def by blast
  then show fc: "fp_finite (float_of_bits cg)"
    using fp_finite_add unfolding a_def by blast
  have "fp_value a = round_to binary32 (fp_value (Finite False 1) + fp_value (float_of_bits cg))"
    using fa unfolding a_def float_1 by (rule fp_value_add)
  then have va: "fp_value a = to_float (1 + fp_value (float_of_bits cg))"
    by (simp add: to_float_def fp_val_def)
  have "fp_value y = round_to binary64 (fp_value R * fp_value a)"
    unfolding y_def using wR wa fy [unfolded y_def] by (rule fp_value_mul)
  then have vy: "fp_value y = to_double (fp_value R * to_float (1 + fp_value (float_of_bits cg)))"
    by (simp only: va to_double_def)
  have "fp_value (MultCoef_product cg h) = round_to binary64 (fp_value y * fp_value (Finite False 65536))"
    unfolding P using wy w16 assms [unfolded P] by (rule fp_value_mul)
  also have "fp_value (Finite False 65536) = 2 ^ 16"
    by (simp add: fp_val_def)
  finally show "fp_value (MultCoef_product cg h)
      = to_double (to_double ((if h then to_double (to_double (1086 / 1000) / to_double 1)
            else to_double (to_double (2625 / 100) / to_double 25))
          * to_float (1 + fp_value (float_of_bits cg))) * 2 ^ 16)"
    by (simp only: vy to_double_def R_def ratio_value(1))
qed

lemma MultCoef_fval_value:
  assumes "fp_finite (MultCoef_fval cg h)"
  shows "fp_finite (float_of_bits cg)"
    and "fp_wf (MultCoef_fval cg h)"
    and "fp_value (MultCoef_fval cg h) = rounded_MultScaled (fp_value (float_of_bits cg)) h"
proof -
  have fP: "fp_finite (MultCoef_product cg h)"
    using assms unfolding MultCoef_fval_product by (rule fp_finite_cvt)
  show "fp_finite (float_of_bits cg)"
    using fP by (rule MultCoef_product_value)
  have wP: "fp_wf (MultCoef_product cg h)"
    using fP by (rule MultCoef_product_value)
  show "fp_wf (MultCoef_fval cg h)"
    unfolding MultCoef_fval_product using wP by (rule fp_wf_cvt)
  have "fp_value (MultCoef_fval cg h) = round_to binary32 (fp_value (MultCoef_product cg h))"
    unfolding MultCoef_fval_product using wP assms [unfolded MultCoef_fval_product]
    by (rule fp_value_cvt)
  then show "fp_value (MultCoef_fval cg h) = rounded_MultScaled (fp_value (float_of_bits cg)) h"
    unfolding MultCoef_product_value(3) [OF fP] rounded_MultScaled_def Let_def to_float_def
    by (rule trans) (rule refl)
qed

lemma ideal_value:
  "(if h then ADC1410_IDEAL_RANGE_ADC_HIGH else ADC1410_IDEAL_RANGE_ADC_LOW)
    = Finite False (if h then 1 else 25)"
  by (simp add: const_eval)

lemma AddCoef_fval_value:
  assumes "fp_finite (AddCoef_fval ca h)"
  shows "fp_finite (float_of_bits ca)"
    and "fp_wf (AddCoef_fval ca h)"
    and "fp_value (AddCoef_fval ca h) = rounded_AddScaled (fp_value (float_of_bits ca)) h"
proof -
  define d :: rat where "d = (if h then 1 else 25)"
  have d: "0 < d"
    by (simp add: d_def)
  define y where "y = fp_div binary64 (float_of_bits ca) (Finite False d)"
  define P where "P = fp_mul binary64 y (Finite False 131072)"
  have F: "AddCoef_fval ca h = fp_cvt binary32 P"
    by (simp only: AddCoef_fval_def P_def y_def d_def ideal_value) (simp add: float_2_17)
  have wc: "fp_wf (float_of_bits ca)"
    by (rule fp_wf_float_of_bits)
  have wd: "fp_wf (Finite False d)"
    using d by simp
  have wy: "fp_wf y"
    unfolding y_def using wc wd by (rule fp_wf_div)
  have w17: "fp_wf (Finite False 131072)"
    by simp
  have wP: "fp_wf P"
    unfolding P_def using wy w17 by (rule fp_wf_mul)
  show "fp_wf (AddCoef_fval ca h)"
    unfolding F using wP by (rule fp_wf_cvt)
  have fP: "fp_finite P"
    using assms unfolding F by (rule fp_finite_cvt)
  then have fy: "fp_finite y"
    using fp_finite_mul unfolding P_def by blast
  then show "fp_finite (float_of_bits ca)"
    unfolding y_def by (rule fp_finite_div)
  have "fp_value y = round_to binary64 (fp_value (float_of_bits ca) / fp_val False d)"
    unfolding y_def using wc d fy [unfolded y_def] by (rule fp_value_div)
  then have vy: "fp_value y = to_double (fp_value (float_of_bits ca) / d)"
    by (simp add: to_double_def fp_val_def)
  have "fp_value P = round_to binary64 (fp_value y * fp_value (Finite False 131072))"
    unfolding P_def using wy w17 fP [unfolded P_def] by (rule fp_value_mul)
  also have "fp_value (Finite False 131072) = 2 ^ 17"
    by (simp add: fp_val_def)
  finally have vP: "fp_value P = to_double (to_double (fp_value (float_of_bits ca) / d) * 2 ^ 17)"
    by (simp only: vy to_double_def)
  have "fp_value (AddCoef_fval ca h) = round_to binary32 (fp_value P)"
    unfolding F using wP assms [unfolded F] by (rule fp_value_cvt)
  then have "fp_value (AddCoef_fval ca h)
      = to_float (to_double (to_double (fp_value (float_of_bits ca) / d) * 2 ^ 17))"
    by (simp only: vP to_float_def)
  also have "\<dots> = rounded_AddScaled (fp_value (float_of_bits ca)) h"
    unfolding rounded_AddScaled_def Let_def to_double_consts d_def by (rule refl)
  finally show "fp_value (AddCoef_fval ca h) = rounded_AddScaled (fp_value (float_of_bits ca)) h" .
qed

section \<open>The rounding statement where the cast is defined\<close>

lemma fp_wf_half: "fp_wf (Finite False (1 / 2))"
  by simp

lemma round_ival_value:
  assumes "fp_wf fval" and "cast_defined fval"
  shows "fp_finite fval"
    and "round_ival unspec fval = word_of_int (trunc_rat (to_double (fp_value fval + 1 / 2)))"
    and "- (2 ^ 31) \<le> trunc_rat (to_double (fp_value fval + 1 / 2))"
    and "trunc_rat (to_double (fp_value fval + 1 / 2)) < 2 ^ 31"
proof -
  define sum where "sum = fp_add binary64 fval (Finite False (1 / 2))"
  have r: "in_int32_range sum"
    using assms(2) by (simp only: cast_defined_def lit_half sum_def)
  have w: "fp_wf sum"
    unfolding sum_def using assms(1) fp_wf_half by (rule fp_wf_add)
  have f: "fp_finite sum"
    using r by (rule in_int32_range_finite)
  then show "fp_finite fval"
    using fp_finite_add unfolding sum_def by blast
  have "fp_value sum = round_to binary64 (fp_value fval + fp_value (Finite False (1 / 2)))"
    unfolding sum_def using f [unfolded sum_def] by (rule fp_value_add)
  then have v: "fp_value sum = to_double (fp_value fval + 1 / 2)"
    by (simp add: to_double_def fp_val_def)
  have "round_ival unspec fval = fp_to_int32 unspec sum"
    by (simp only: round_ival_def lit_half sum_def)
  also have "\<dots> = word_of_int (trunc_rat (fp_value sum))"
    using w r by (rule fp_to_int32_value)
  finally show "round_ival unspec fval
      = word_of_int (trunc_rat (to_double (fp_value fval + 1 / 2)))"
    by (simp only: v)
  show "- (2 ^ 31) \<le> trunc_rat (to_double (fp_value fval + 1 / 2))"
    using fp_to_int32_value(2) [OF w r] by (simp only: v)
  show "trunc_rat (to_double (fp_value fval + 1 / 2)) < 2 ^ 31"
    using fp_to_int32_value(3) [OF w r] by (simp only: v)
qed

lemma rounded_MultCoef_scaled:
  "rounded_MultCoef c h
    = word_of_int (trunc_rat (to_double (rounded_MultScaled c h + 1 / 2))) AND 0x3FFFF"
  unfolding rounded_MultCoef_def rounded_MultScaled_def Let_def by (rule refl)

lemma rounded_AddCoef_scaled:
  "rounded_AddCoef c h
    = word_of_int (trunc_rat (to_double (rounded_AddScaled c h + 1 / 2))) AND 0x3FFFF"
  unfolding rounded_AddCoef_def rounded_AddScaled_def Let_def by (rule refl)

lemma cast_defined_finite: "cast_defined fval \<Longrightarrow> fp_finite fval"
  unfolding cast_defined_def using in_int32_range_finite fp_finite_add by blast

section \<open>The sum with one half\<close>

text \<open>A rounded magnitude is a significand of at most \<open>p\<close> bits times a power of two.\<close>

lemma rnd_form:
  assumes "0 \<le> y"
  shows "\<exists>n k. rnd p em y = of_nat n * pow2 k \<and> n \<le> 2 ^ p"
proof (cases "y = 0")
  case True
  have "rnd p em y = of_nat 0 * pow2 0 \<and> (0::nat) \<le> 2 ^ p"
    using True by (simp add: rnd_zero)
  then show ?thesis
    by blast
next
  case False
  then have y: "0 < y"
    using assms by simp
  let ?e = "max (ilog2 y) em"
  let ?q = "pow2 (?e - int p + 1)"
  let ?z = "rne (y / ?q)"
  have q: "0 < ?q" by (rule pow2_pos)
  have "y < pow2 (ilog2 y + 1)"
    using y by (rule ilog2_bounds)
  also have "\<dots> \<le> pow2 (?e + 1)"
    by (rule pow2_mono) simp
  also have "\<dots> = pow2 (int p) * ?q"
    by (simp add: pow2_add [symmetric])
  finally have "y / ?q < pow2 (int p)"
    using q by (simp add: pos_divide_less_eq)
  then have "y / ?q \<le> of_int (2 ^ p)"
    by (simp add: pow2_int)
  then have hi: "?z \<le> 2 ^ p"
    by (rule rne_le_int)
  have "of_int 0 \<le> y / ?q"
    using y q by simp
  then have lo: "0 \<le> ?z"
    by (rule rne_ge_int)
  have "rnd p em y = of_int ?z * ?q"
    using False by (simp add: rnd_unfold)
  also have "of_int ?z = (of_nat (nat ?z) :: rat)"
    using lo by simp
  finally have "rnd p em y = of_nat (nat ?z) * ?q" .
  moreover have "nat ?z \<le> 2 ^ p"
    using hi lo by (simp add: nat_le_iff)
  ultimately show ?thesis
    by blast
qed

lemma float_below_half:
  assumes m: "m = of_nat n * pow2 k" and n: "n \<le> 2 ^ 24" and lt: "m < 1 / 2"
  shows "m \<le> 16777215 / 33554432"
proof (cases "- 25 \<le> k")
  case True
  define j where "j = nat (k + 25)"
  have "pow2 k = pow2 (int j) * pow2 (- 25)"
    using True by (simp add: j_def pow2_add [symmetric])
  then have m': "m = of_nat (n * 2 ^ j) / 33554432"
    using m by (simp add: pow2_int pow2_def [of "- 25"])
  then have "(of_nat (n * 2 ^ j) :: rat) < of_nat 16777216"
    using lt by simp
  then have "n * 2 ^ j < 16777216"
    by (simp only: of_nat_less_iff)
  then have "n * 2 ^ j \<le> 16777215"
    by simp
  then have "(of_nat (n * 2 ^ j) :: rat) \<le> of_nat 16777215"
    by (simp only: of_nat_le_iff)
  then show ?thesis
    using m' by simp
next
  case False
  then have "pow2 k \<le> pow2 (- 26)"
    by (intro pow2_mono) simp
  then have k: "pow2 k \<le> 1 / 67108864"
    by (simp add: pow2_def [of "- 26"])
  have "(of_nat n :: rat) \<le> of_nat (2 ^ 24)"
    using n by (simp only: of_nat_le_iff)
  then have "m \<le> of_nat (2 ^ 24) * pow2 k"
    using m pow2_pos [of k] by simp
  also have "\<dots> \<le> of_nat (2 ^ 24) * (1 / 67108864)"
    using k by simp
  finally show ?thesis
    by simp
qed

lemma to_double_exact:
  assumes w: "w = of_int j * pow2 K" and j: "\<bar>j\<bar> < 2 ^ 53" and K: "- 1074 \<le> K"
  shows "to_double w = w"
proof (cases "j = 0")
  case True
  then show ?thesis
    using w by (simp add: to_double_def round_to_def rnd_zero)
next
  case False
  have abs: "\<bar>w\<bar> = of_int \<bar>j\<bar> * pow2 K"
    using pow2_pos [of K] by (simp add: w abs_mult)
  have "rnd 53 (- 1022) (of_int \<bar>j\<bar> * pow2 K) = of_int \<bar>j\<bar> * pow2 K"
    using False j K by (intro rnd_exact) simp_all
  then have "rnd 53 (- 1022) \<bar>w\<bar> = \<bar>w\<bar>"
    by (simp only: abs)
  then have "to_double w = fp_val (w < 0) \<bar>w\<bar>"
    by (simp only: to_double_abs)
  then show ?thesis
    by (simp add: fp_val_def)
qed

lemma float_sum_half_exact:
  assumes m: "M = of_nat n * pow2 k" and n: "n \<le> 2 ^ 24"
    and lo: "1 / 2 \<le> M" and hi: "M < 2 ^ 32"
  shows "to_double (fp_val s M + 1 / 2) = fp_val s M + 1 / 2"
proof -
  have k25: "- 25 \<le> k"
  proof (rule ccontr)
    assume "\<not> - 25 \<le> k"
    then have "pow2 k \<le> pow2 (- 26)"
      by (intro pow2_mono) simp
    then have k: "pow2 k \<le> 1 / 67108864"
      by (simp add: pow2_def [of "- 26"])
    have "(of_nat n :: rat) \<le> of_nat (2 ^ 24)"
      using n by (simp only: of_nat_le_iff)
    then have "M \<le> of_nat (2 ^ 24) * pow2 k"
      using m pow2_pos [of k] by simp
    also have "\<dots> \<le> of_nat (2 ^ 24) * (1 / 67108864)"
      using k by simp
    finally show False
      using lo by simp
  qed
  define z :: int where "z = (if s then - int n else int n)"
  have V: "fp_val s M = of_int z * pow2 k"
    by (simp add: fp_val_def m z_def)
  show ?thesis
  proof (cases "- 1 \<le> k")
    case True
    define i where "i = nat (k + 1)"
    have "pow2 k = pow2 (int i) * pow2 (- 1)"
      using True by (simp add: i_def pow2_add [symmetric])
    then have pk: "pow2 k = of_int (2 ^ i) * pow2 (- 1)"
      by (simp add: pow2_int)
    have half: "(1 / 2 :: rat) = pow2 (- 1)"
      by (simp add: pow2_def)
    have sum: "fp_val s M + 1 / 2 = of_int (z * 2 ^ i + 1) * pow2 (- 1)"
      by (simp add: V pk half algebra_simps)
    have "M = of_int (int n * 2 ^ i) / 2"
      by (simp add: m pk pow2_def [of "- 1"])
    then have "(of_int (int n * 2 ^ i) :: rat) < of_int (2 ^ 33)"
      using hi by simp
    then have "int n * 2 ^ i < 2 ^ 33"
      by (simp only: of_int_less_iff)
    moreover have "\<bar>z * 2 ^ i + 1\<bar> \<le> int n * 2 ^ i + 1"
      by (simp add: z_def abs_if)
    ultimately have "\<bar>z * 2 ^ i + 1\<bar> < 2 ^ 53"
      by simp
    then show ?thesis
      using sum by (intro to_double_exact [where j = "z * 2 ^ i + 1" and K = "- 1"]) simp_all
  next
    case False
    define i where "i = nat (- 1 - k)"
    have i: "i \<le> 24"
      using k25 by (simp add: i_def)
    have "pow2 (- 1) = pow2 (int i) * pow2 k"
      using False by (simp add: i_def pow2_add [symmetric])
    then have half: "(1 / 2 :: rat) = of_int (2 ^ i) * pow2 k"
      by (simp add: pow2_int pow2_def [of "- 1"])
    have sum: "fp_val s M + 1 / 2 = of_int (z + 2 ^ i) * pow2 k"
      by (simp add: V half algebra_simps)
    define q :: int where "q = 2 ^ i"
    have "(2::int) ^ i \<le> 2 ^ 24"
      using i by (intro power_increasing) simp_all
    then have q: "0 \<le> q" "q \<le> 16777216"
      by (simp_all add: q_def)
    have z: "\<bar>z\<bar> \<le> 16777216"
      using n by (simp add: z_def)
    have "\<bar>z + q\<bar> < 9007199254740992"
      using q z by linarith
    then have "\<bar>z + 2 ^ i\<bar> < 2 ^ 53"
      by (simp add: q_def)
    then show ?thesis
      using sum k25 by (intro to_double_exact [where j = "z + 2 ^ i" and K = k]) simp_all
  qed
qed

lemma rnd53_values:
  "rnd 53 (- 1022) 2147483648 = 2147483648" "rnd 53 (- 1022) 2147483649 = 2147483649"
  "rnd 53 (- 1022) (33554431 / 33554432) = 33554431 / 33554432"
  by (simp_all add: rnd_eval)

lemma to_double_range:
  assumes "- (2 ^ 31) \<le> trunc_rat (to_double w)" and "trunc_rat (to_double w) < 2 ^ 31"
  shows "- 2147483649 < w" and "w < 2147483648"
proof -
  show "w < 2147483648"
  proof (rule ccontr)
    assume "\<not> w < 2147483648"
    then have w: "2147483648 \<le> w"
      by simp
    then have "rnd 53 (- 1022) 2147483648 \<le> rnd 53 (- 1022) w"
      by (intro rnd_mono) simp_all
    then have r: "2147483648 \<le> rnd 53 (- 1022) w"
      by (simp only: rnd53_values)
    have "to_double w = rnd 53 (- 1022) w"
      using w by (simp add: to_double_abs fp_val_def)
    then have "trunc_rat (to_double w) = \<lfloor>rnd 53 (- 1022) w\<rfloor>"
      using r by (simp add: trunc_rat_def)
    moreover have "2147483648 \<le> \<lfloor>rnd 53 (- 1022) w\<rfloor>"
      using r by (simp add: le_floor_iff)
    ultimately show False
      using assms(2) by simp
  qed
  show "- 2147483649 < w"
  proof (rule ccontr)
    assume "\<not> - 2147483649 < w"
    then have w: "2147483649 \<le> - w"
      by simp
    then have "rnd 53 (- 1022) 2147483649 \<le> rnd 53 (- 1022) (- w)"
      by (intro rnd_mono) simp_all
    then have r: "2147483649 \<le> rnd 53 (- 1022) (- w)"
      by (simp only: rnd53_values)
    have "to_double w = - rnd 53 (- 1022) (- w)"
      using w by (simp add: to_double_abs fp_val_def)
    then have "trunc_rat (to_double w) = - \<lfloor>rnd 53 (- 1022) (- w)\<rfloor>"
      using r by (simp add: trunc_rat_def)
    moreover have "2147483649 \<le> \<lfloor>rnd 53 (- 1022) (- w)\<rfloor>"
      using r by (simp add: le_floor_iff)
    ultimately show False
      using assms(1) by simp
  qed
qed

text \<open>
  Where the cast is defined, the \<^verbatim>\<open>double\<close> sum of a \<^verbatim>\<open>float\<close> and one half truncates
  as the exact sum does.
\<close>

lemma trunc_float_sum:
  assumes lo: "- (2 ^ 31) \<le> trunc_rat (to_double (to_float y + 1 / 2))"
    and hi: "trunc_rat (to_double (to_float y + 1 / 2)) < 2 ^ 31"
  shows "trunc_rat (to_double (to_float y + 1 / 2)) = trunc_rat (to_float y + 1 / 2)"
proof -
  define M where "M = rnd 24 (- 126) \<bar>y\<bar>"
  define s where "s = (y < 0)"
  have V: "to_float y = fp_val s M"
    by (simp only: to_float_abs M_def s_def)
  have M0: "0 \<le> M"
    by (simp add: M_def rnd_nonneg)
  obtain n k where nk: "M = of_nat n * pow2 k" "n \<le> 2 ^ 24"
    using rnd_form [of "\<bar>y\<bar>" 24 "- 126"] unfolding M_def by auto
  have range: "- 2147483649 < fp_val s M + 1 / 2" "fp_val s M + 1 / 2 < 2147483648"
    using to_double_range [OF lo hi] by (simp_all only: V)
  show ?thesis
  proof (cases "M < 1 / 2")
    case True
    then have M: "M \<le> 16777215 / 33554432"
      using nk by (intro float_below_half [where n = n and k = k])
    define w where "w = fp_val s M + 1 / 2"
    have w: "0 \<le> w" "w \<le> 33554431 / 33554432"
      using M M0 True by (simp_all add: w_def fp_val_def)
    have "rnd 53 (- 1022) w \<le> rnd 53 (- 1022) (33554431 / 33554432)"
      using w by (intro rnd_mono) simp_all
    then have r: "0 \<le> rnd 53 (- 1022) w" "rnd 53 (- 1022) w < 1"
      using w(1) by (simp_all add: rnd53_values rnd_nonneg)
    have "to_double w = rnd 53 (- 1022) w"
      using w(1) by (simp add: to_double_abs fp_val_def)
    then have "trunc_rat (to_double w) = 0"
      using r by (simp add: trunc_rat_def floor_eq_iff)
    moreover have "trunc_rat w = 0"
      using w by (simp add: trunc_rat_def floor_eq_iff)
    ultimately show ?thesis
      by (simp only: V w_def)
  next
    case False
    then have lo': "1 / 2 \<le> M"
      by simp
    have "M < 2 ^ 32"
      using range M0 by (cases s) (simp_all add: fp_val_def)
    then have "to_double (fp_val s M + 1 / 2) = fp_val s M + 1 / 2"
      using nk lo' by (intro float_sum_half_exact [where n = n and k = k])
    then show ?thesis
      by (simp only: V)
  qed
qed


section \<open>Truncation and rounding half away from zero\<close>

lemma trunc_half_away_below:
  assumes "S \<le> - (1 / 2)"
  shows "trunc_rat (S + 1 / 2) = round_half_away S + 1"
proof -
  have "\<lfloor>- S + 1 / 2\<rfloor> = \<lfloor>(- S - 1 / 2) + of_int 1\<rfloor>"
    by simp
  also have "\<dots> = \<lfloor>- S - 1 / 2\<rfloor> + 1"
    by (simp only: floor_add_int)
  finally have f: "\<lfloor>- S + 1 / 2\<rfloor> = \<lfloor>- S - 1 / 2\<rfloor> + 1" .
  show ?thesis
  proof (cases "S = - (1 / 2)")
    case True
    then show ?thesis
      by (simp add: trunc_rat_def round_half_away_def)
  next
    case False
    then have "S + 1 / 2 < 0" "S < 0"
      using assms by simp_all
    then show ?thesis
      using f by (simp add: trunc_rat_def round_half_away_def)
  qed
qed

lemma trunc_half_away_above:
  assumes "- (1 / 2) < S"
  shows "trunc_rat (S + 1 / 2) = round_half_away S"
proof (cases "S < 0")
  case True
  then have "0 \<le> S + 1 / 2" "S + 1 / 2 < 1" "0 \<le> - S + 1 / 2" "- S + 1 / 2 < 1"
    using assms by simp_all
  then have "\<lfloor>S + 1 / 2\<rfloor> = 0" "\<lfloor>- S + 1 / 2\<rfloor> = 0"
    by (simp_all add: floor_eq_iff)
  then show ?thesis
    using True assms by (simp add: trunc_rat_def round_half_away_def)
next
  case False
  then show ?thesis
    by (simp add: trunc_rat_def round_half_away_def)
qed

lemma mask_succ_neq:
  "(word_of_int (r + 1) :: 32 word) AND 0x3FFFF \<noteq> word_of_int r AND 0x3FFFF"
proof
  define w :: "32 word" where "w = word_of_int r"
  assume "(word_of_int (r + 1) :: 32 word) AND 0x3FFFF = word_of_int r AND 0x3FFFF"
  then have "(w + 1) AND 0x3FFFF = w AND 0x3FFFF"
    by (simp add: w_def)
  then have "even ((w + 1) AND 0x3FFFF) = even (w AND 0x3FFFF)"
    by simp
  then show False
    by (simp add: even_and_iff)
qed


section \<open>The coefficients where the cast is defined\<close>

lemma rounded_AddScaled_float: "\<exists>y. rounded_AddScaled c h = to_float y"
  unfolding rounded_AddScaled_def Let_def by blast

lemma rounded_MultScaled_float: "\<exists>y. rounded_MultScaled c h = to_float y"
  unfolding rounded_MultScaled_def Let_def by blast

lemma round_ival_trunc:
  assumes w: "fp_wf fval" and c: "cast_defined fval" and y: "fp_value fval = to_float y"
  shows "round_ival unspec fval = word_of_int (trunc_rat (fp_value fval + 1 / 2))"
    and "- (2 ^ 31) \<le> trunc_rat (fp_value fval + 1 / 2)"
    and "trunc_rat (fp_value fval + 1 / 2) < 2 ^ 31"
proof -
  have lo: "- (2 ^ 31) \<le> trunc_rat (to_double (to_float y + 1 / 2))"
    using round_ival_value(3) [OF w c] by (simp only: y)
  have hi: "trunc_rat (to_double (to_float y + 1 / 2)) < 2 ^ 31"
    using round_ival_value(4) [OF w c] by (simp only: y)
  have eq: "trunc_rat (to_double (fp_value fval + 1 / 2)) = trunc_rat (fp_value fval + 1 / 2)"
    using trunc_float_sum [OF lo hi] by (simp only: y)
  show "round_ival unspec fval = word_of_int (trunc_rat (fp_value fval + 1 / 2))"
    using round_ival_value(2) [OF w c, of unspec] by (simp only: eq)
  show "- (2 ^ 31) \<le> trunc_rat (fp_value fval + 1 / 2)"
    using round_ival_value(3) [OF w c] by (simp only: eq)
  show "trunc_rat (fp_value fval + 1 / 2) < 2 ^ 31"
    using round_ival_value(4) [OF w c] by (simp only: eq)
qed

lemma add_coef_trunc:
  assumes "cast_defined (AddCoef_fval ca h)"
  shows "ComputeAddCoefADC1410 g unspec ca h
    = word_of_int (trunc_rat (rounded_AddScaled (fp_value (float_of_bits ca)) h + 1 / 2))
        AND 0x3FFFF"
proof -
  have f: "fp_finite (AddCoef_fval ca h)"
    using assms by (rule cast_defined_finite)
  have w: "fp_wf (AddCoef_fval ca h)"
    using f by (rule AddCoef_fval_value)
  have v: "fp_value (AddCoef_fval ca h) = rounded_AddScaled (fp_value (float_of_bits ca)) h"
    using f by (rule AddCoef_fval_value)
  obtain y where y: "fp_value (AddCoef_fval ca h) = to_float y"
    using rounded_AddScaled_float unfolding v by blast
  have "round_ival unspec (AddCoef_fval ca h)
      = word_of_int (trunc_rat (fp_value (AddCoef_fval ca h) + 1 / 2))"
    using w assms y by (rule round_ival_trunc)
  then show ?thesis
    by (simp only: ComputeAddCoefADC1410_def Let_def keep18_and v)
qed

lemma mult_coef_trunc:
  assumes "cast_defined (MultCoef_fval cg h)"
  shows "ComputeMultCoefADC1410 g unspec cg h
    = word_of_int (trunc_rat (rounded_MultScaled (fp_value (float_of_bits cg)) h + 1 / 2))
        AND 0x3FFFF"
proof -
  have f: "fp_finite (MultCoef_fval cg h)"
    using assms by (rule cast_defined_finite)
  have w: "fp_wf (MultCoef_fval cg h)"
    using f by (rule MultCoef_fval_value)
  have v: "fp_value (MultCoef_fval cg h) = rounded_MultScaled (fp_value (float_of_bits cg)) h"
    using f by (rule MultCoef_fval_value)
  obtain y where y: "fp_value (MultCoef_fval cg h) = to_float y"
    using rounded_MultScaled_float unfolding v by blast
  have "round_ival unspec (MultCoef_fval cg h)
      = word_of_int (trunc_rat (fp_value (MultCoef_fval cg h) + 1 / 2))"
    using w assms y by (rule round_ival_trunc)
  then show ?thesis
    by (simp only: ComputeMultCoefADC1410_def Let_def keep18_and v)
qed

lemma mult_coef_rounded:
  assumes "cast_defined (MultCoef_fval cg fHighGain)"
  shows "fp_finite (float_of_bits cg)
    \<and> ComputeMultCoefADC1410 g unspec cg fHighGain
        = rounded_MultCoef (fp_value (float_of_bits cg)) fHighGain"
proof -
  have f: "fp_finite (MultCoef_fval cg fHighGain)"
    using assms by (rule cast_defined_finite)
  have w: "fp_wf (MultCoef_fval cg fHighGain)"
    using f by (rule MultCoef_fval_value)
  have v: "fp_value (MultCoef_fval cg fHighGain)
      = rounded_MultScaled (fp_value (float_of_bits cg)) fHighGain"
    using f by (rule MultCoef_fval_value)
  have "round_ival unspec (MultCoef_fval cg fHighGain)
      = word_of_int (trunc_rat (to_double
          (rounded_MultScaled (fp_value (float_of_bits cg)) fHighGain + 1 / 2)))"
    using round_ival_value(2) [OF w assms] by (simp only: v)
  then have "ComputeMultCoefADC1410 g unspec cg fHighGain
      = rounded_MultCoef (fp_value (float_of_bits cg)) fHighGain"
    by (simp only: ComputeMultCoefADC1410_def Let_def keep18_and rounded_MultCoef_scaled)
  moreover have "fp_finite (float_of_bits cg)"
    using f by (rule MultCoef_fval_value)
  ultimately show ?thesis
    by simp
qed

lemma add_coef_rounded:
  assumes "cast_defined (AddCoef_fval ca fHighGain)"
  shows "fp_finite (float_of_bits ca)
    \<and> ComputeAddCoefADC1410 g unspec ca fHighGain
        = rounded_AddCoef (fp_value (float_of_bits ca)) fHighGain"
proof -
  have f: "fp_finite (AddCoef_fval ca fHighGain)"
    using assms by (rule cast_defined_finite)
  have w: "fp_wf (AddCoef_fval ca fHighGain)"
    using f by (rule AddCoef_fval_value)
  have v: "fp_value (AddCoef_fval ca fHighGain)
      = rounded_AddScaled (fp_value (float_of_bits ca)) fHighGain"
    using f by (rule AddCoef_fval_value)
  have "round_ival unspec (AddCoef_fval ca fHighGain)
      = word_of_int (trunc_rat (to_double
          (rounded_AddScaled (fp_value (float_of_bits ca)) fHighGain + 1 / 2)))"
    using round_ival_value(2) [OF w assms] by (simp only: v)
  then have "ComputeAddCoefADC1410 g unspec ca fHighGain
      = rounded_AddCoef (fp_value (float_of_bits ca)) fHighGain"
    by (simp only: ComputeAddCoefADC1410_def Let_def keep18_and rounded_AddCoef_scaled)
  moreover have "fp_finite (float_of_bits ca)"
    using f by (rule AddCoef_fval_value)
  ultimately show ?thesis
    by simp
qed

section \<open>Ties of the product\<close>








section \<open>Evaluations at further inputs\<close>

lemma bits_gain_30000: "float_of_bits 0x46EA6000 = Finite False 30000"
  by (simp add: float_of_bits_def fp_eval bit_iff_odd)

lemma mult_fval_30000: "MultCoef_fval 0x46EA6000 True = Finite False 2135234048"
  by (simp add: MultCoef_fval_def const_eval float_of_bits_def fp_eval bit_iff_odd)

lemma cast_30000: "cast_defined (MultCoef_fval 0x46EA6000 True)"
  by (simp add: cast_defined_def in_int32_range_def mult_fval_30000 lit_half fp_eval)

lemma mult_30000: "ComputeMultCoefADC1410 g unspec 0x46EA6000 True = 71168"
  by (simp add: ComputeMultCoefADC1410_def mult_fval_30000 ival_eval)

lemma rounded_mult_30000: "rounded_MultCoef 30000 True = 71168"
  by (simp add: rounded_MultCoef_def to_float_def to_double_def round_to_def format_simps
      rnd_eval trunc_rat_def)

lemma bits_gain_32768: "float_of_bits 0x47000000 = Finite False 32768"
  by (simp add: float_of_bits_def fp_eval bit_iff_odd)

lemma mult_fval_32768: "MultCoef_fval 0x47000000 True = Finite False 2332238336"
  by (simp add: MultCoef_fval_def const_eval float_of_bits_def fp_eval bit_iff_odd)

lemma cast_32768_val: "\<not> cast_defined (Finite False 2332238336)"
  by (simp add: cast_defined_def in_int32_range_def lit_half fp_eval)

lemma mult_32768: "ComputeMultCoefADC1410 g cvt_indefinite 0x47000000 True = 0"
  by (simp add: ComputeMultCoefADC1410_def mult_fval_32768 ival_eval cvt_indefinite_def)

lemma spec_mult_32768: "spec_MultCoef 32768 True = 205390"
  by (simp add: spec_MultCoef_def trunc_rat_def floor_rat_numeral)

lemma rounded_mult_32768: "rounded_MultCoef 32768 True = 205312"
  by (simp add: rounded_MultCoef_def to_float_def to_double_def round_to_def format_simps
      rnd_eval trunc_rat_def)

lemma cast_gain_tie: "cast_defined (MultCoef_fval 0x372A0000 False)"
  by (simp add: cast_defined_def in_int32_range_def mult_fval_gain_tie lit_half fp_eval)

lemma rounded_scaled_gain_tie: "rounded_MultScaled (85 / 8388608) False = 137627 / 2"
  by (simp add: rounded_MultScaled_def to_float_def to_double_def round_to_def format_simps
      rnd_eval)

lemma bits_offset_100000: "float_of_bits 0x47C35000 = Finite False 100000"
  by (simp add: float_of_bits_def fp_eval bit_iff_odd)

lemma add_fval_offset_100000: "AddCoef_fval 0x47C35000 False = Finite False 524288000"
  by (simp add: AddCoef_fval_def const_eval float_of_bits_def fp_eval bit_iff_odd)

lemma cast_offset_100000: "cast_defined (AddCoef_fval 0x47C35000 False)"
  by (simp add: cast_defined_def in_int32_range_def add_fval_offset_100000 lit_half fp_eval)

lemma add_offset_100000: "ComputeAddCoefADC1410 g unspec 0x47C35000 False = 0"
  by (simp add: ComputeAddCoefADC1410_def add_fval_offset_100000 ival_eval)

lemma rounded_add_offset_100000: "rounded_AddCoef 100000 False = 0"
  by (simp add: rounded_AddCoef_def to_float_def to_double_def round_to_def format_simps
      rnd_eval trunc_rat_def)

lemma bits_offset_10000: "float_of_bits 0x461C4200 = Finite False (20001 / 2)"
  by (simp add: float_of_bits_def fp_eval bit_iff_odd)

lemma add_fval_offset_10000: "AddCoef_fval 0x461C4200 True = Finite False 1310785536"
  by (simp add: AddCoef_fval_def const_eval float_of_bits_def fp_eval bit_iff_odd)

lemma cast_offset_10000: "cast_defined (AddCoef_fval 0x461C4200 True)"
  by (simp add: cast_defined_def in_int32_range_def add_fval_offset_10000 lit_half fp_eval)

lemma add_offset_10000: "ComputeAddCoefADC1410 g unspec 0x461C4200 True = 65536"
  by (simp add: ComputeAddCoefADC1410_def add_fval_offset_10000 ival_eval)

lemma rounded_add_offset_10000: "rounded_AddCoef (20001 / 2) True = 65536"
  by (simp add: rounded_AddCoef_def to_float_def to_double_def round_to_def format_simps
      rnd_eval trunc_rat_def)

lemma bits_offset_16384: "float_of_bits 0x46800004 = Finite False (2097153 / 128)"
  by (simp add: float_of_bits_def fp_eval bit_iff_odd)

lemma add_fval_offset_16384: "AddCoef_fval 0x46800004 True = Finite False 2147484672"
  by (simp add: AddCoef_fval_def const_eval float_of_bits_def fp_eval bit_iff_odd)

lemma cast_offset_16384_val: "\<not> cast_defined (Finite False 2147484672)"
  by (simp add: cast_defined_def in_int32_range_def lit_half fp_eval)

lemma add_offset_16384: "ComputeAddCoefADC1410 g cvt_indefinite 0x46800004 True = 0"
  by (simp add: ComputeAddCoefADC1410_def add_fval_offset_16384 ival_eval cvt_indefinite_def)

lemma spec_add_offset_16384: "spec_AddCoef (2097153 / 128) True = 1024"
  by (simp add: spec_AddCoef_def trunc_rat_def floor_rat_numeral)

lemma rounded_add_offset_16384: "rounded_AddCoef (2097153 / 128) True = 1024"
  by (simp add: rounded_AddCoef_def to_float_def to_double_def round_to_def format_simps
      rnd_eval trunc_rat_def)

lemma cast_offset_100: "cast_defined (AddCoef_fval 0x42C8000C False)"
  by (simp add: cast_defined_def in_int32_range_def add_fval_offset_100 lit_half fp_eval)

lemma rounded_scaled_offset_100: "rounded_AddScaled (3276803 / 32768) False = 1048577 / 2"
  by (simp add: rounded_AddScaled_def to_float_def to_double_def round_to_def format_simps
      rnd_eval)

lemma bits_offset_m25: "float_of_bits 0xB7A00000 = Finite True (5 / 262144)"
  by (simp add: float_of_bits_def fp_eval bit_iff_odd)

lemma add_fval_offset_m25: "AddCoef_fval 0xB7A00000 True = Finite True (5 / 2)"
  by (simp add: AddCoef_fval_def const_eval float_of_bits_def fp_eval bit_iff_odd)

lemma cast_offset_m25: "cast_defined (AddCoef_fval 0xB7A00000 True)"
  by (simp add: cast_defined_def in_int32_range_def add_fval_offset_m25 lit_half fp_eval)

lemma add_offset_m25: "ComputeAddCoefADC1410 g unspec 0xB7A00000 True = 0x3FFFE"
  by (simp add: ComputeAddCoefADC1410_def add_fval_offset_m25 ival_eval)

lemma rounded_scaled_offset_m25: "rounded_AddScaled (- (5 / 262144)) True = - (5 / 2)"
  by (simp add: rounded_AddScaled_def to_float_def to_double_def round_to_def format_simps
      rnd_eval)

lemma half_away_m25: "round_half_away (- (5 / 2)) = - 3"
  by (simp add: round_half_away_def floor_rat_numeral)

lemma half_away_offset_100: "round_half_away (1048577 / 2) = 524289"
  by (simp add: round_half_away_def floor_rat_numeral)













section \<open>Arguments for which the cast is defined\<close>

lemma rnd53_top: "rnd 53 (- 1022) (4294967041 / 2) = 4294967041 / 2"
  by (simp add: rnd_eval)

lemma cast_defined_bound:
  assumes "0 \<le> M" and "M \<le> 2147483520"
  shows "cast_defined (Finite s M)"
proof -
  define v where "v = fp_val s M + 1 / 2"
  have sum: "fp_add binary64 (Finite s M) (Finite False (1 / 2))
      = (if v = 0 then Finite False 0 else fp_round binary64 (v < 0) \<bar>v\<bar>)"
    by (simp add: fp_val_def v_def Let_def)
  show ?thesis
  proof (cases "v = 0")
    case True
    then show ?thesis
      unfolding cast_defined_def lit_half sum by (simp add: in_int32_range_def)
  next
    case False
    have "\<bar>fp_val s M\<bar> = M"
      using assms(1) by (simp add: fp_val_def)
    then have v: "0 \<le> \<bar>v\<bar>" "\<bar>v\<bar> \<le> 4294967041 / 2"
      using assms(2) unfolding v_def by linarith+
    define a where "a = rnd 53 (- 1022) \<bar>v\<bar>"
    have "a \<le> rnd 53 (- 1022) (4294967041 / 2)"
      unfolding a_def using v by (intro rnd_mono) simp_all
    then have a: "0 \<le> a" "a \<le> 4294967041 / 2"
      using v(1) by (simp_all add: a_def rnd_nonneg rnd53_top)
    have "\<bar>v\<bar> \<le> pow2 31"
      using v(2) by (simp add: pow2_def)
    then have r: "fp_round binary64 (v < 0) \<bar>v\<bar> = Finite (v < 0) a"
      unfolding a_def using v(1) by (intro fp64_le [where k = 31]) simp_all
    define n where "n = \<lfloor>a\<rfloor>"
    have n: "0 \<le> n" "n < 2 ^ 31"
      using a by (simp_all add: n_def floor_less_iff)
    have "in_int32_range (Finite (v < 0) a)"
      using n by (simp add: in_int32_range_def Let_def n_def [symmetric])
    then show ?thesis
      unfolding cast_defined_def lit_half sum using False by (simp add: r)
  qed
qed

lemma add_chain_top_high: "rnd 24 (- 126) (rnd 53 (- 1022)
    (rnd 53 (- 1022) (16777215 / 1024 / 1) * 131072)) = 2147483520"
  by (simp add: rnd_eval)

lemma add_chain_top_low: "rnd 24 (- 126) (rnd 53 (- 1022)
    (rnd 53 (- 1022) (13107199 / 32 / 25) * 131072)) = 2147483520"
  by (simp add: rnd_eval)

lemma add_cast_defined:
  assumes fb: "float_of_bits ca = Finite s m" and lt: "m < (if h then 16384 else 409600)"
  shows "cast_defined (AddCoef_fval ca h)"
proof -
  define d :: rat where "d = (if h then 1 else 25)"
  have d: "0 < d"
    by (simp add: d_def)
  have m0: "0 \<le> m"
    using fb by (rule float_of_bits_nonneg)
  obtain n k where nk: "m = of_nat n * pow2 k" "n < 2 ^ 24"
    using float_of_bits_Finite [OF fb] by blast
  define pm :: rat where "pm = (if h then 16777215 / 1024 else 13107199 / 32)"
  have pm: "m \<le> pm"
  proof (cases h)
    case True
    then have "m < of_nat 16777216 * pow2 (- 10)"
      using lt by (simp add: pow2_def)
    then have "m \<le> of_nat (16777216 - 1) * pow2 (- 10)"
      using nk by (intro float_pred [where n = n and k = k]) simp_all
    then show ?thesis
      using True by (simp add: pm_def pow2_def)
  next
    case False
    then have "m < of_nat 13107200 * pow2 (- 5)"
      using lt by (simp add: pow2_def)
    then have "m \<le> of_nat (13107200 - 1) * pow2 (- 5)"
      using nk by (intro float_pred [where n = n and k = k]) simp_all
    then show ?thesis
      using False by (simp add: pm_def pow2_def)
  qed
  then have m19: "m \<le> 524288"
    by (simp add: pm_def split: if_splits)
  define M where "M = rnd 24 (- 126) (rnd 53 (- 1022) (rnd 53 (- 1022) (m / d) * 131072))"
  have fval: "AddCoef_fval ca h = Finite s M"
    using AddCoef_fval_Finite(1) [OF fb m19, of h] by (simp add: M_def d_def)
  have "M \<le> rnd 24 (- 126) (rnd 53 (- 1022) (rnd 53 (- 1022) (pm / d) * 131072))"
    unfolding M_def using m0 pm d by (rule add_chain_mono)
  also have "\<dots> = 2147483520"
    using add_chain_top_high add_chain_top_low by (simp add: pm_def d_def)
  finally have M: "M \<le> 2147483520" .
  have "0 \<le> M"
    unfolding M_def using m0 d by (intro rnd_nonneg mult_nonneg_nonneg) simp_all
  then show ?thesis
    unfolding fval using M by (rule cast_defined_bound)
qed

lemma mult_chain_mono:
  assumes "0 \<le> R" and "0 \<le> a" and "a \<le> a'"
  shows "rnd 24 (- 126) (rnd 53 (- 1022) (rnd 53 (- 1022) (R * a) * 65536))
    \<le> rnd 24 (- 126) (rnd 53 (- 1022) (rnd 53 (- 1022) (R * a') * 65536))"
proof -
  have 1: "0 \<le> R * a" "R * a \<le> R * a'"
    using assms by (simp_all add: mult_left_mono)
  then have 2: "rnd 53 (- 1022) (R * a) \<le> rnd 53 (- 1022) (R * a')"
    by (intro rnd_mono) simp_all
  have 3: "0 \<le> rnd 53 (- 1022) (R * a) * 65536"
    using 1(1) by (simp add: rnd_nonneg)
  have 4: "rnd 53 (- 1022) (rnd 53 (- 1022) (R * a) * 65536)
      \<le> rnd 53 (- 1022) (rnd 53 (- 1022) (R * a') * 65536)"
    using 2 3 by (intro rnd_mono) simp_all
  have 5: "0 \<le> rnd 53 (- 1022) (rnd 53 (- 1022) (R * a) * 65536)"
    using 3 by (rule rnd_nonneg)
  show ?thesis
    using 5 4 by (rule rnd_mono) simp
qed

lemma mult_chain_top_high: "rnd 24 (- 126) (rnd 53 (- 1022)
    (rnd 53 (- 1022) (4890909195324359 / 4503599627370496 * 30001) * 65536)) = 2135234048"
  by (simp add: rnd_eval)

lemma mult_chain_top_low: "rnd 24 (- 126) (rnd 53 (- 1022)
    (rnd 53 (- 1022) (4728779608739021 / 4503599627370496 * 30001) * 65536)) = 2064452864"
  by (simp add: rnd_eval)

lemma rnd24_30001: "rnd 24 (- 126) 30001 = 30001"
  by (simp add: rnd_eval)

lemma mult_cast_defined:
  assumes fb: "float_of_bits cg = Finite s m" and le: "m \<le> 30000"
  shows "cast_defined (MultCoef_fval cg h)"
proof -
  define R :: rat where "R = (if h then 4890909195324359 / 4503599627370496
    else 4728779608739021 / 4503599627370496)"
  have R: "0 \<le> R"
    by (simp add: R_def)
  have m0: "0 \<le> m"
    using fb by (rule float_of_bits_nonneg)
  define v where "v = 1 + fp_val s m"
  have "\<bar>fp_val s m\<bar> = m"
    using m0 by (simp add: fp_val_def)
  then have v: "0 \<le> \<bar>v\<bar>" "\<bar>v\<bar> \<le> 30001"
    using le unfolding v_def by linarith+
  define a where "a = rnd 24 (- 126) \<bar>v\<bar>"
  have "a \<le> rnd 24 (- 126) 30001"
    unfolding a_def using v by (intro rnd_mono) simp_all
  then have a: "0 \<le> a" "a \<le> 30001"
    by (simp_all add: a_def rnd_nonneg rnd24_30001)
  define M where "M = rnd 24 (- 126) (rnd 53 (- 1022) (rnd 53 (- 1022) (R * a) * 65536))"
  have m15: "m \<le> 32767"
    using le by simp
  have fval: "MultCoef_fval cg h = Finite (v < 0) M"
    using MultCoef_fval_Finite(1) [OF fb m15, of h] by (simp only: M_def a_def v_def R_def)
  have "M \<le> rnd 24 (- 126) (rnd 53 (- 1022) (rnd 53 (- 1022) (R * 30001) * 65536))"
    unfolding M_def using R a by (rule mult_chain_mono)
  also have "\<dots> \<le> 2147483520"
    using mult_chain_top_high mult_chain_top_low by (simp add: R_def)
  finally have M: "M \<le> 2147483520" .
  have "0 \<le> M"
    unfolding M_def using R a(1) by (intro rnd_nonneg mult_nonneg_nonneg) simp_all
  then show ?thesis
    unfolding fval using M by (rule cast_defined_bound)
qed

section \<open>The coefficient formulas\<close>

text \<open>
  C1, as the code has it. For either gain range and every gain error for which the cast
  of \<^verbatim>\<open>fval + 0.5\<close> has a defined value (the \<^verbatim>\<open>double\<close> sum is finite and its integral
  part is an \<^verbatim>\<open>int32_t\<close> value), among them every finite gain error of magnitude at
  most 30000, the gain error is a finite float and \<^verbatim>\<open>ComputeMultCoefADC1410\<close> returns the
  formula of the specification with each operation rounded as its C type requires: the
  ratio is the \<^verbatim>\<open>double\<close> quotient of the \<^verbatim>\<open>double\<close> literals, \<open>1 + gainError\<close> is a
  \<^verbatim>\<open>float\<close> sum, the two products are \<^verbatim>\<open>double\<close> products, the value stored in
  \<^verbatim>\<open>fval\<close> is rounded to \<^verbatim>\<open>float\<close>, one half is added in \<^verbatim>\<open>double\<close>, the sum is
  truncated toward zero and the low 18 bits are kept.
\<close>

theorem mult_coef_rounded_formula:
  "(cast_defined (MultCoef_fval cg fHighGain)
      \<longrightarrow> fp_finite (float_of_bits cg)
        \<and> ComputeMultCoefADC1410 g unspec cg fHighGain
            = rounded_MultCoef (fp_value (float_of_bits cg)) fHighGain)
    \<and> (float_of_bits cg = Finite s m \<and> m \<le> 30000
      \<longrightarrow> cast_defined (MultCoef_fval cg fHighGain)
        \<and> ComputeMultCoefADC1410 g unspec cg fHighGain
            = rounded_MultCoef (fp_val s m) fHighGain)"
proof -
  have dom: "cast_defined (MultCoef_fval cg fHighGain)"
    if "float_of_bits cg = Finite s m" and "m \<le> 30000"
    using that by (rule mult_cast_defined)
  have val: "ComputeMultCoefADC1410 g unspec cg fHighGain
      = rounded_MultCoef (fp_val s m) fHighGain"
    if "float_of_bits cg = Finite s m" and "m \<le> 30000"
    using mult_coef_rounded [OF dom [OF that], of g unspec] by (simp add: that(1))
  show ?thesis
    using mult_coef_rounded [of cg fHighGain g unspec] dom val by blast
qed

theorem mult_coef_rounded_formula_witness:
  "float_of_bits 0x46EA6000 = Finite False 30000
   \<and> (30000 :: rat) \<le> 30000
   \<and> float_of_bits 0x372A0000 = Finite False (85 / 8388608)
   \<and> (85 / 8388608 :: rat) \<le> 30000
   \<and> cast_defined (MultCoef_fval 0x46EA6000 True)
   \<and> fp_finite (float_of_bits 0x46EA6000)
   \<and> fp_value (float_of_bits 0x46EA6000) = 30000
   \<and> ComputeMultCoefADC1410 g_off cvt_indefinite 0x46EA6000 True
       = rounded_MultCoef (fp_value (float_of_bits 0x46EA6000)) True
   \<and> rounded_MultCoef 30000 True = 71168
   \<and> ComputeMultCoefADC1410 g_off cvt_indefinite 0x46EA6000 True = 71168
   \<and> cast_defined (MultCoef_fval 0x372A0000 False)
   \<and> fp_value (float_of_bits 0x372A0000) = 85 / 8388608
   \<and> ComputeMultCoefADC1410 g_off cvt_indefinite 0x372A0000 False
       = rounded_MultCoef (fp_value (float_of_bits 0x372A0000)) False
   \<and> rounded_MultCoef (85 / 8388608) False = 68814"
  using mult_coef_rounded_formula [where cg = "0x46EA6000" and fHighGain = True
      and g = g_off and unspec = cvt_indefinite and s = False and m = 30000]
    mult_coef_rounded_formula [where cg = "0x372A0000" and fHighGain = False
      and g = g_off and unspec = cvt_indefinite and s = False and m = "85 / 8388608"]
  by (simp add: cast_30000 bits_gain_30000 rounded_mult_30000 mult_30000 cast_gain_tie
      bits_gain_tie rounded_mult_gain_tie fp_val_def)

text \<open>
  C1 as stated fails, the formula read in exact arithmetic. At the gain error
  \<open>85 / 2\<^sup>2\<^sup>3\<close> and low gain the scaled value 68813.497... becomes the float 68813.5 in
  \<^verbatim>\<open>fval\<close>, so the code returns 68814 where the formula gives 68813. At the largest finite
  float \<^verbatim>\<open>fval\<close> is infinite, the cast has no defined value, and a platform that
  delivers \<^verbatim>\<open>0x80000000\<close> returns 0 where bit retention of the formula gives 68813. At the
  gain error 32768 and high gain \<^verbatim>\<open>fval\<close> is the finite float 2332238336, above the
  \<^verbatim>\<open>int32_t\<close> range: the cast has no defined value and the same platform returns 0, where
  the formula gives 205390 in exact arithmetic and 205312 with the rounding of each C
  operation.
\<close>

theorem mult_formula_counterexample:
  "float_of_bits 0x372A0000 = Finite False (85 / 8388608)
   \<and> ComputeMultCoefADC1410 g_off cvt_indefinite 0x372A0000 False = 68814
   \<and> spec_MultCoef (85 / 8388608) False = 68813
   \<and> ComputeMultCoefADC1410 g_off cvt_indefinite 0x372A0000 False
       \<noteq> spec_MultCoef (85 / 8388608) False
   \<and> float_of_bits 0x7F7FFFFF = Finite False 340282346638528859811704183484516925440
   \<and> ComputeMultCoefADC1410 g_off cvt_indefinite 0x7F7FFFFF False = 0
   \<and> spec_MultCoef 340282346638528859811704183484516925440 False = 68813
   \<and> float_of_bits 0x47000000 = Finite False 32768
   \<and> MultCoef_fval 0x47000000 True = Finite False 2332238336
   \<and> \<not> cast_defined (MultCoef_fval 0x47000000 True)
   \<and> ComputeMultCoefADC1410 g_off cvt_indefinite 0x47000000 True = 0
   \<and> spec_MultCoef 32768 True = 205390
   \<and> rounded_MultCoef 32768 True = 205312"
  by (simp add: bits_gain_tie mult_gain_tie spec_mult_gain_tie bits_flt_max mult_flt_max
      spec_mult_flt_max bits_gain_32768 mult_fval_32768 cast_32768_val mult_32768 spec_mult_32768
      rounded_mult_32768)

text \<open>
  C2, as the code has it. For either gain range and every offset error for which the cast
  of \<^verbatim>\<open>fval + 0.5\<close> has a defined value (the \<^verbatim>\<open>double\<close> sum is finite and its integral
  part is an \<^verbatim>\<open>int32_t\<close> value), among them every finite offset error of magnitude
  below 16384 at high gain and below 409600 at low gain, the offset error is a finite float
  and \<^verbatim>\<open>ComputeAddCoefADC1410\<close> returns the formula of the specification with each
  operation rounded as its C type requires: the quotient by the ideal range (25.0 or 1.0,
  no ratio of actual to ideal) and the product with \<open>2\<^sup>1\<^sup>7\<close> are \<^verbatim>\<open>double\<close> operations,
  the value stored in \<^verbatim>\<open>fval\<close> is rounded to \<^verbatim>\<open>float\<close>, and the rounding and mask steps
  are those of the multiplicative path.
\<close>

theorem add_coef_rounded_formula:
  "(cast_defined (AddCoef_fval ca fHighGain)
      \<longrightarrow> fp_finite (float_of_bits ca)
        \<and> ComputeAddCoefADC1410 g unspec ca fHighGain
            = rounded_AddCoef (fp_value (float_of_bits ca)) fHighGain)
    \<and> (float_of_bits ca = Finite s m \<and> m < (if fHighGain then 16384 else 409600)
      \<longrightarrow> cast_defined (AddCoef_fval ca fHighGain)
        \<and> ComputeAddCoefADC1410 g unspec ca fHighGain
            = rounded_AddCoef (fp_val s m) fHighGain)"
proof -
  have dom: "cast_defined (AddCoef_fval ca fHighGain)"
    if "float_of_bits ca = Finite s m" and "m < (if fHighGain then 16384 else 409600)"
    using that by (rule add_cast_defined)
  have val: "ComputeAddCoefADC1410 g unspec ca fHighGain
      = rounded_AddCoef (fp_val s m) fHighGain"
    if "float_of_bits ca = Finite s m" and "m < (if fHighGain then 16384 else 409600)"
    using add_coef_rounded [OF dom [OF that], of g unspec] by (simp add: that(1))
  show ?thesis
    using add_coef_rounded [of ca fHighGain g unspec] dom val by blast
qed

theorem add_coef_rounded_formula_witness:
  "float_of_bits 0x461C4200 = Finite False (20001 / 2)
   \<and> (20001 / 2 :: rat) < 16384
   \<and> float_of_bits 0x47C35000 = Finite False 100000
   \<and> (100000 :: rat) < 409600
   \<and> cast_defined (AddCoef_fval 0x461C4200 True)
   \<and> fp_finite (float_of_bits 0x461C4200)
   \<and> fp_value (float_of_bits 0x461C4200) = 20001 / 2
   \<and> ComputeAddCoefADC1410 g_off cvt_indefinite 0x461C4200 True
       = rounded_AddCoef (fp_value (float_of_bits 0x461C4200)) True
   \<and> rounded_AddCoef (20001 / 2) True = 65536
   \<and> cast_defined (AddCoef_fval 0x47C35000 False)
   \<and> fp_value (float_of_bits 0x47C35000) = 100000
   \<and> ComputeAddCoefADC1410 g_off cvt_indefinite 0x47C35000 False
       = rounded_AddCoef (fp_value (float_of_bits 0x47C35000)) False
   \<and> rounded_AddCoef 100000 False = 0
   \<and> ComputeAddCoefADC1410 g_off cvt_indefinite 0x461C4200 True = 65536
   \<and> ComputeAddCoefADC1410 g_off cvt_indefinite 0x47C35000 False = 0
   \<and> cast_defined (AddCoef_fval 0x42C8000C False)
   \<and> fp_value (float_of_bits 0x42C8000C) = 3276803 / 32768
   \<and> ComputeAddCoefADC1410 g_off cvt_indefinite 0x42C8000C False
       = rounded_AddCoef (fp_value (float_of_bits 0x42C8000C)) False
   \<and> rounded_AddCoef (3276803 / 32768) False = 1"
  using add_coef_rounded_formula [where ca = "0x461C4200" and fHighGain = True
      and g = g_off and unspec = cvt_indefinite and s = False and m = "20001 / 2"]
    add_coef_rounded_formula [where ca = "0x47C35000" and fHighGain = False
      and g = g_off and unspec = cvt_indefinite and s = False and m = 100000]
    add_coef_rounded_formula [where ca = "0x42C8000C" and fHighGain = False
      and g = g_off and unspec = cvt_indefinite and s = False and m = "3276803 / 32768"]
  by (simp add: cast_offset_10000 bits_offset_10000 rounded_add_offset_10000
      cast_offset_100000 bits_offset_100000 rounded_add_offset_100000 add_offset_10000
      add_offset_100000 cast_offset_100 bits_offset_100 rounded_add_offset_100 fp_val_def)

text \<open>
  C2 as stated fails, the formula read in exact arithmetic. At the offset error
  \<open>13107212 / 2\<^sup>1\<^sup>7\<close> (100.0000915...) and low gain the scaled value 524288.48 becomes the
  float 524288.5 in \<^verbatim>\<open>fval\<close>, so the code returns 1 (524289 masked) where the formula
  gives 0 (524288 masked). At the offset error \<open>16384 + 2\<^sup>-\<^sup>7\<close> and high gain \<^verbatim>\<open>fval\<close> is
  2147484672, above the \<^verbatim>\<open>int32_t\<close> range: the cast has no defined value, and a platform
  that delivers \<^verbatim>\<open>0x80000000\<close> returns 0 where the formula gives 1024, in exact
  arithmetic and with the rounding of each C operation.
\<close>

theorem add_formula_counterexample:
  "float_of_bits 0x42C8000C = Finite False (3276803 / 32768)
   \<and> ComputeAddCoefADC1410 g_off cvt_indefinite 0x42C8000C False = 1
   \<and> spec_AddCoef (3276803 / 32768) False = 0
   \<and> ComputeAddCoefADC1410 g_off cvt_indefinite 0x42C8000C False
       \<noteq> spec_AddCoef (3276803 / 32768) False
   \<and> float_of_bits 0x46800004 = Finite False (2097153 / 128)
   \<and> AddCoef_fval 0x46800004 True = Finite False 2147484672
   \<and> \<not> cast_defined (AddCoef_fval 0x46800004 True)
   \<and> ComputeAddCoefADC1410 g_off cvt_indefinite 0x46800004 True = 0
   \<and> spec_AddCoef (2097153 / 128) True = 1024
   \<and> rounded_AddCoef (2097153 / 128) True = 1024"
  by (simp add: bits_offset_100 add_offset_100 spec_add_offset_100 bits_offset_16384
      add_fval_offset_16384 cast_offset_16384_val add_offset_16384 spec_add_offset_16384
      rounded_add_offset_16384)

section \<open>Rounding at ties\<close>




section \<open>Negative offsets and the rounding rule\<close>

text \<open>
  C6. Both functions round with the same statement, \<^verbatim>\<open>(int32_t)(fval + 0.5)\<close>, which
  truncates toward zero. For every finite offset error: when its scaled value, offsetError
  divided by the ideal range times \<open>2\<^sup>1\<^sup>7\<close>, lies strictly between \<open>-1.5\<close> and \<open>0\<close>,
  \<^verbatim>\<open>ComputeAddCoefADC1410\<close> returns 0, not \<^verbatim>\<open>0x3FFFF\<close>, the 18-bit encoding of \<open>-1\<close>.
  Wherever the cast has a defined value, \<^verbatim>\<open>ComputeAddCoefADC1410\<close> returns the low 18 bits
  of the value \<open>S\<close> stored in \<^verbatim>\<open>fval\<close> (the scaled value with the rounding of each C
  operation) plus one half, truncated toward zero, and \<^verbatim>\<open>ComputeMultCoefADC1410\<close> obeys
  the same rule on its own stored value. For \<open>S \<le> -1/2\<close> that integer is one more than
  \<open>S\<close> rounded half away from zero, and the result differs from the 18-bit encoding of the
  latter; for \<open>S > -1/2\<close> the two coincide.
\<close>

theorem negative_offset_truncates:
  assumes fb: "float_of_bits ca = Finite s m"
  shows "(- (3 / 2) < fp_val s m / (if fHighGain then 1 else 25) * 2 ^ 17
        \<and> fp_val s m / (if fHighGain then 1 else 25) * 2 ^ 17 < 0
      \<longrightarrow> ComputeAddCoefADC1410 g unspec ca fHighGain = 0
        \<and> ComputeAddCoefADC1410 g unspec ca fHighGain \<noteq> 0x3FFFF)
    \<and> (cast_defined (AddCoef_fval ca fHighGain)
      \<longrightarrow> ComputeAddCoefADC1410 g unspec ca fHighGain
          = word_of_int (trunc_rat (rounded_AddScaled (fp_val s m) fHighGain + 1 / 2))
              AND 0x3FFFF)
    \<and> (cast_defined (AddCoef_fval ca fHighGain)
        \<and> rounded_AddScaled (fp_val s m) fHighGain \<le> - (1 / 2)
      \<longrightarrow> ComputeAddCoefADC1410 g unspec ca fHighGain
          = word_of_int (round_half_away (rounded_AddScaled (fp_val s m) fHighGain) + 1)
              AND 0x3FFFF
        \<and> ComputeAddCoefADC1410 g unspec ca fHighGain
          \<noteq> word_of_int (round_half_away (rounded_AddScaled (fp_val s m) fHighGain))
              AND 0x3FFFF)
    \<and> (cast_defined (AddCoef_fval ca fHighGain)
        \<and> - (1 / 2) < rounded_AddScaled (fp_val s m) fHighGain
      \<longrightarrow> ComputeAddCoefADC1410 g unspec ca fHighGain
          = word_of_int (round_half_away (rounded_AddScaled (fp_val s m) fHighGain))
              AND 0x3FFFF)
    \<and> (cast_defined (MultCoef_fval cg fHighGain)
      \<longrightarrow> ComputeMultCoefADC1410 g unspec cg fHighGain
          = word_of_int (trunc_rat (rounded_MultScaled (fp_value (float_of_bits cg)) fHighGain
              + 1 / 2)) AND 0x3FFFF)"
proof -
  define S where "S = rounded_AddScaled (fp_val s m) fHighGain"
  define R where "R = ComputeAddCoefADC1410 g unspec ca fHighGain"
  have v: "fp_value (float_of_bits ca) = fp_val s m"
    by (simp add: fb)
  have A: "R = 0 \<and> R \<noteq> 0x3FFFF"
    if "- (3 / 2) < fp_val s m / (if fHighGain then 1 else 25) * 2 ^ 17"
      and "fp_val s m / (if fHighGain then 1 else 25) * 2 ^ 17 < 0"
  proof -
    have "R = 0"
      unfolding R_def using fb that by (rule negative_offset_zero)
    then show ?thesis
      by simp
  qed
  have B: "R = word_of_int (trunc_rat (S + 1 / 2)) AND 0x3FFFF"
    if "cast_defined (AddCoef_fval ca fHighGain)"
    using add_coef_trunc [OF that, of g unspec] by (simp only: v R_def S_def)
  have C: "R = word_of_int (round_half_away S + 1) AND 0x3FFFF
      \<and> R \<noteq> word_of_int (round_half_away S) AND 0x3FFFF"
    if "cast_defined (AddCoef_fval ca fHighGain)" and "S \<le> - (1 / 2)"
  proof -
    have "R = word_of_int (round_half_away S + 1) AND 0x3FFFF"
      using B [OF that(1)] by (simp only: trunc_half_away_below [OF that(2)])
    then show ?thesis
      using mask_succ_neq [of "round_half_away S"] by simp
  qed
  have D: "R = word_of_int (round_half_away S) AND 0x3FFFF"
    if "cast_defined (AddCoef_fval ca fHighGain)" and "- (1 / 2) < S"
    using B [OF that(1)] by (simp only: trunc_half_away_above [OF that(2)])
  have E: "ComputeMultCoefADC1410 g unspec cg fHighGain
      = word_of_int (trunc_rat (rounded_MultScaled (fp_value (float_of_bits cg)) fHighGain
          + 1 / 2)) AND 0x3FFFF"
    if "cast_defined (MultCoef_fval cg fHighGain)"
    using that by (rule mult_coef_trunc)
  show ?thesis
    unfolding R_def [symmetric] S_def [symmetric] using A B C D E by blast
qed

theorem negative_offset_truncates_witness:
  "float_of_bits 0xB7A00000 = Finite True (5 / 262144)
   \<and> cast_defined (AddCoef_fval 0xB7A00000 True)
   \<and> rounded_AddScaled (fp_val True (5 / 262144)) True = - (5 / 2)
   \<and> round_half_away (- (5 / 2)) = - 3
   \<and> ComputeAddCoefADC1410 g_off cvt_indefinite 0xB7A00000 True = 0x3FFFE
   \<and> ComputeAddCoefADC1410 g_off cvt_indefinite 0xB7A00000 True
       \<noteq> word_of_int (- 3) AND 0x3FFFF
   \<and> float_of_bits 0xB7000000 = Finite True (1 / 131072)
   \<and> fp_val True (1 / 131072) / 1 * 2 ^ 17 = - 1
   \<and> ComputeAddCoefADC1410 g_off cvt_indefinite 0xB7000000 True = 0
   \<and> float_of_bits 0x42C8000C = Finite False (3276803 / 32768)
   \<and> cast_defined (AddCoef_fval 0x42C8000C False)
   \<and> rounded_AddScaled (fp_val False (3276803 / 32768)) False = 1048577 / 2
   \<and> round_half_away (1048577 / 2) = 524289
   \<and> ComputeAddCoefADC1410 g_off cvt_indefinite 0x42C8000C False = 1
   \<and> cast_defined (MultCoef_fval 0x372A0000 False)
   \<and> rounded_MultScaled (fp_value (float_of_bits 0x372A0000)) False = 137627 / 2
   \<and> ComputeMultCoefADC1410 g_off cvt_indefinite 0x372A0000 False = 68814"
  using negative_offset_truncates [where ca = "0xB7A00000" and s = True and m = "5 / 262144"
      and fHighGain = True and g = g_off and unspec = cvt_indefinite and cg = 0]
    negative_offset_truncates [where ca = "0xB7000000" and s = True and m = "1 / 131072"
      and fHighGain = True and g = g_off and unspec = cvt_indefinite and cg = 0]
    negative_offset_truncates [where ca = "0x42C8000C" and s = False and m = "3276803 / 32768"
      and fHighGain = False and g = g_off and unspec = cvt_indefinite and cg = "0x372A0000"]
  by (simp add: bits_offset_m25 cast_offset_m25 rounded_scaled_offset_m25 half_away_m25
      add_offset_m25 bits_minus_2_m17 add_offset_100 bits_offset_100 cast_offset_100
      rounded_scaled_offset_100 half_away_offset_100 cast_gain_tie bits_gain_tie
      rounded_scaled_gain_tie mult_gain_tie fp_val_def)

section \<open>The report\<close>

lemma cal_lines_globals: "cal_lines g ext adcal = cal_lines g' ext adcal"
  by (simp add: cal_lines_def ComputeMultCoefADC1410_def ComputeAddCoefADC1410_def)

text \<open>
  C10. No function of the file reads \<^verbatim>\<open>dpmutilfVerbose\<close>: setting the flag to any value
  changes neither the result of a coefficient function nor the result and the report of
  \<^verbatim>\<open>FDisplayZmodADCCal\<close>.
\<close>

theorem verbose_noninterference:
  "FDisplayZmodADCCal (g\<lparr>dpmutilfVerbose := b\<rparr>) ext fd a = FDisplayZmodADCCal g ext fd a
   \<and> ComputeMultCoefADC1410 (g\<lparr>dpmutilfVerbose := b\<rparr>) unspec x h
       = ComputeMultCoefADC1410 g unspec x h
   \<and> ComputeAddCoefADC1410 (g\<lparr>dpmutilfVerbose := b\<rparr>) unspec x h
       = ComputeAddCoefADC1410 g unspec x h"
proof -
  have "cal_lines (g\<lparr>dpmutilfVerbose := b\<rparr>) = cal_lines g"
    by (intro ext) (rule cal_lines_globals)
  then have "FDisplayZmodADCCal (g\<lparr>dpmutilfVerbose := b\<rparr>) ext fd a
      = FDisplayZmodADCCal g ext fd a"
    unfolding FDisplayZmodADCCal_def by (simp only:)
  then show ?thesis
    by (simp add: ComputeMultCoefADC1410_def ComputeAddCoefADC1410_def)
qed

lemma fact_read_fails:
  assumes "SyzygyI2cRead ext fd a (addrAdcFactCalStart ext) (sizeof_ZMOD_ADC_CAL ext) = (False, n, c)"
  shows "FDisplayZmodADCCal g ext fd a =
    (False, read_error ''Error: failed to read ZmodADC factory calibration from 0x%02X\<newline>'' ext a n)"
  using assms by (simp add: FDisplayZmodADCCal_def)

lemma user_read_fails:
  assumes "SyzygyI2cRead ext fd a (addrAdcFactCalStart ext) (sizeof_ZMOD_ADC_CAL ext) = (True, n, c)"
    and "SyzygyI2cRead ext fd a (addrAdcUserCalStart ext) (sizeof_ZMOD_ADC_CAL ext) = (False, n', c')"
  shows "FDisplayZmodADCCal g ext fd a =
    (False, date_line ''\<newline>    Factory Calibration:   %s\<newline>'' ext c @ cal_lines g ext c
       @ read_error ''Error: failed to read ZmodADC user calibration from 0x%02X\<newline>'' ext a n')"
  using assms by (simp add: FDisplayZmodADCCal_def)

text \<open>
  C7, as the code has it. The factory region is read first and a failed read ends the
  function: when the factory read fails, the report is the failure notice of the factory
  region alone (two lines, no coefficient line of either region), whatever the user
  region would deliver, and the function returns fFalse.
\<close>

theorem factory_failure_ends_report:
  "\<not> fst (SyzygyI2cRead ext fd a (addrAdcFactCalStart ext) (sizeof_ZMOD_ADC_CAL ext)) \<Longrightarrow>
   FDisplayZmodADCCal g ext fd a =
     (False,
      [Printf ''Error: failed to read ZmodADC factory calibration from 0x%02X\<newline>''
         [ArgInt (uint a)],
       Printf ''Error: received %d of %d bytes\<newline>''
         [ArgInt (uint (fst (snd (SyzygyI2cRead ext fd a (addrAdcFactCalStart ext)
             (sizeof_ZMOD_ADC_CAL ext))))),
          ArgInt (int (sizeof_ZMOD_ADC_CAL ext))]])"
  by (cases "SyzygyI2cRead ext fd a (addrAdcFactCalStart ext) (sizeof_ZMOD_ADC_CAL ext)")
    (simp add: fact_read_fails read_error_def)

theorem factory_failure_ends_report_witness:
  "\<not> fst (SyzygyI2cRead ext_fact_fails 3 0x30 (addrAdcFactCalStart ext_fact_fails)
       (sizeof_ZMOD_ADC_CAL ext_fact_fails))
   \<and> FDisplayZmodADCCal g_off ext_fact_fails 3 0x30 =
     (False,
      [Printf ''Error: failed to read ZmodADC factory calibration from 0x%02X\<newline>''
         [ArgInt 48],
       Printf ''Error: received %d of %d bytes\<newline>'' [ArgInt 0, ArgInt 128]])"
  using factory_failure_ends_report [where ext = ext_fact_fails and fd = 3 and a = "0x30"
      and g = g_off]
  by (simp add: ext_fact_fails_def)

text \<open>
  C7 as stated fails: on a device whose factory region cannot be read and whose user
  region can, the report has two lines, the failure notice, and the function has
  returned without the sixteen lines of the user region.
\<close>

theorem region_independence_counterexample:
  "fst (SyzygyI2cRead ext_fact_fails 3 0x30 (addrAdcUserCalStart ext_fact_fails)
       (sizeof_ZMOD_ADC_CAL ext_fact_fails))
   \<and> \<not> fst (SyzygyI2cRead ext_fact_fails 3 0x30 (addrAdcFactCalStart ext_fact_fails)
       (sizeof_ZMOD_ADC_CAL ext_fact_fails))
   \<and> length (cal_lines g_off ext_fact_fails cal_zero) = 16
   \<and> length (snd (FDisplayZmodADCCal g_off ext_fact_fails 3 0x30)) = 2"
proof -
  have "SyzygyI2cRead ext_fact_fails 3 0x30 (addrAdcFactCalStart ext_fact_fails)
       (sizeof_ZMOD_ADC_CAL ext_fact_fails) = (False, 0, cal_zero)"
    by (simp add: ext_fact_fails_def)
  then have "length (snd (FDisplayZmodADCCal g_off ext_fact_fails 3 0x30)) = 2"
    by (simp add: fact_read_fails read_error_def)
  then show ?thesis
    by (simp add: ext_fact_fails_def cal_lines_def)
qed

text \<open>
  C8. With the bus read of the specification, a transaction that the transport reports
  as failed, or that transfers fewer bytes than the size of the calibration structure,
  ends the function with the failure notice of its region, which carries the count of
  bytes received and the count expected; the structure is not displayed and no
  coefficient of that region is computed. For the user region the lines of the factory
  region, already written, precede the notice.
\<close>

theorem transfer_incomplete:
  "(let ext' = ext\<lparr>SyzygyI2cRead := SyzygyI2cRead_spec transfer\<rparr>;
        size = sizeof_ZMOD_ADC_CAL ext;
        rf = transfer fd a (addrAdcFactCalStart ext) size;
        ru = transfer fd a (addrAdcUserCalStart ext) size
    in ((failed rf \<or> unat (bytesTransferred rf) < size) \<longrightarrow>
          FDisplayZmodADCCal g ext' fd a =
            (False,
             [Printf ''Error: failed to read ZmodADC factory calibration from 0x%02X\<newline>''
                [ArgInt (uint a)],
              Printf ''Error: received %d of %d bytes\<newline>''
                [ArgInt (uint (bytesTransferred rf)), ArgInt (int size)]]))
       \<and> (\<not> (failed rf \<or> unat (bytesTransferred rf) < size)
           \<and> (failed ru \<or> unat (bytesTransferred ru) < size) \<longrightarrow>
          FDisplayZmodADCCal g ext' fd a =
            (False,
             date_line ''\<newline>    Factory Calibration:   %s\<newline>'' ext' (payload rf)
             @ cal_lines g ext' (payload rf)
             @ [Printf ''Error: failed to read ZmodADC user calibration from 0x%02X\<newline>''
                  [ArgInt (uint a)],
                Printf ''Error: received %d of %d bytes\<newline>''
                  [ArgInt (uint (bytesTransferred ru)), ArgInt (int size)]])))"
proof -
  define ext' where "ext' = ext\<lparr>SyzygyI2cRead := SyzygyI2cRead_spec transfer\<rparr>"
  define size where "size = sizeof_ZMOD_ADC_CAL ext"
  define rf where "rf = transfer fd a (addrAdcFactCalStart ext) size"
  define ru where "ru = transfer fd a (addrAdcUserCalStart ext) size"
  have sel: "addrAdcFactCalStart ext' = addrAdcFactCalStart ext"
    "addrAdcUserCalStart ext' = addrAdcUserCalStart ext"
    "sizeof_ZMOD_ADC_CAL ext' = size"
    "SyzygyI2cRead ext' = SyzygyI2cRead_spec transfer"
    by (simp_all add: ext'_def size_def)
  have f: "SyzygyI2cRead ext' fd a (addrAdcFactCalStart ext') (sizeof_ZMOD_ADC_CAL ext')
      = (\<not> (failed rf \<or> unat (bytesTransferred rf) < size), bytesTransferred rf, payload rf)"
    by (simp add: sel SyzygyI2cRead_spec_def rf_def Let_def)
  have u: "SyzygyI2cRead ext' fd a (addrAdcUserCalStart ext') (sizeof_ZMOD_ADC_CAL ext')
      = (\<not> (failed ru \<or> unat (bytesTransferred ru) < size), bytesTransferred ru, payload ru)"
    by (simp add: sel SyzygyI2cRead_spec_def ru_def Let_def)
  have 1: "FDisplayZmodADCCal g ext' fd a =
      (False,
       [Printf ''Error: failed to read ZmodADC factory calibration from 0x%02X\<newline>''
          [ArgInt (uint a)],
        Printf ''Error: received %d of %d bytes\<newline>''
          [ArgInt (uint (bytesTransferred rf)), ArgInt (int size)]])"
    if "failed rf \<or> unat (bytesTransferred rf) < size"
    using that f fact_read_fails [of ext' fd a "bytesTransferred rf" "payload rf" g]
    by (simp add: read_error_def sel)
  have 2: "FDisplayZmodADCCal g ext' fd a =
      (False,
       date_line ''\<newline>    Factory Calibration:   %s\<newline>'' ext' (payload rf)
       @ cal_lines g ext' (payload rf)
       @ [Printf ''Error: failed to read ZmodADC user calibration from 0x%02X\<newline>''
            [ArgInt (uint a)],
          Printf ''Error: received %d of %d bytes\<newline>''
            [ArgInt (uint (bytesTransferred ru)), ArgInt (int size)]])"
    if "\<not> (failed rf \<or> unat (bytesTransferred rf) < size)"
      and "failed ru \<or> unat (bytesTransferred ru) < size"
    using that f u
      user_read_fails [of ext' fd a "bytesTransferred rf" "payload rf" "bytesTransferred ru" "payload ru" g]
    by (simp add: read_error_def sel)
  show ?thesis
    unfolding Let_def ext'_def [symmetric] size_def [symmetric] rf_def [symmetric] ru_def [symmetric]
    using 1 2 by blast
qed

theorem transfer_incomplete_witness:
  "unat (bytesTransferred (transfer_short 3 0x30 0x8100 128)) < 128
   \<and> FDisplayZmodADCCal g_off (ext_fact_fails\<lparr>SyzygyI2cRead := SyzygyI2cRead_spec transfer_short\<rparr>)
        3 0x30 =
       (False,
        [Printf ''Error: failed to read ZmodADC factory calibration from 0x%02X\<newline>''
           [ArgInt 48],
         Printf ''Error: received %d of %d bytes\<newline>'' [ArgInt 100, ArgInt 128]])
   \<and> \<not> (failed (transfer_user_fails 3 0x30 0x8100 128)
        \<or> unat (bytesTransferred (transfer_user_fails 3 0x30 0x8100 128)) < 128)
   \<and> failed (transfer_user_fails 3 0x30 0x7000 128)
   \<and> snd (FDisplayZmodADCCal g_off
        (ext_fact_fails\<lparr>SyzygyI2cRead := SyzygyI2cRead_spec transfer_user_fails\<rparr>) 3 0x30) =
       date_line ''\<newline>    Factory Calibration:   %s\<newline>'' ext_fact_fails cal_zero
       @ cal_lines g_off ext_fact_fails cal_zero
       @ [Printf ''Error: failed to read ZmodADC user calibration from 0x%02X\<newline>''
            [ArgInt 48],
          Printf ''Error: received %d of %d bytes\<newline>'' [ArgInt 0, ArgInt 128]]"
  using
    transfer_incomplete [where ext = ext_fact_fails and transfer = transfer_short
      and fd = 3 and a = "0x30" and g = g_off]
    transfer_incomplete [where ext = ext_fact_fails and transfer = transfer_user_fails
      and fd = 3 and a = "0x30" and g = g_off]
  by (simp add: Let_def ext_fact_fails_def transfer_short_def transfer_user_fails_def
      date_line_def cal_lines_def)

end
